theory Spec2Isabelle
  imports Main "HOL-Library.Sublist" "HOL-Library.Multiset"
begin

section \<open>The EPG combiner (combine\_epg.py)\<close>

text \<open>
  The script fetches XMLTV documents from several sources, folds the \<open>channel\<close> and
  \<open>programme\<close> children of every fetched root into one \<open>tv\<close> element, skipping entities
  whose key was seen before, and writes the result to a file behind a fixed preamble.

  Python's \<open>xml.etree.ElementTree.Element\<close> is a tag, a dictionary of attributes, a text
  and an ordered list of child elements. The attribute dictionary is an association list
  read with \<open>map_of\<close>; strings are \<open>string\<close>.
\<close>

subsection \<open>Elements\<close>

datatype element =
  Element (tag: string) (attrib: "(string \<times> string) list") (etext: string)
    (children: "element list")

text \<open>\<open>e.get(key, default)\<close>\<close>

definition elem_get :: "element \<Rightarrow> string \<Rightarrow> string \<Rightarrow> string" where
  "elem_get e key dflt = (case map_of (attrib e) key of None \<Rightarrow> dflt | Some v \<Rightarrow> v)"

text \<open>\<open>e.set(key, value)\<close>: an existing key keeps its place, a new one goes last.\<close>

fun dict_set :: "(string \<times> string) list \<Rightarrow> string \<Rightarrow> string \<Rightarrow> (string \<times> string) list" where
  "dict_set [] key v = [(key, v)]"
| "dict_set ((k, w) # kvs) key v =
     (if k = key then (k, v) # kvs else (k, w) # dict_set kvs key v)"

definition elem_set :: "element \<Rightarrow> string \<Rightarrow> string \<Rightarrow> element" where
  "elem_set e key v = Element (tag e) (dict_set (attrib e) key v) (etext e) (children e)"

text \<open>\<open>e.append(child)\<close>\<close>

definition append_child :: "element \<Rightarrow> element \<Rightarrow> element" where
  "append_child e c = Element (tag e) (attrib e) (etext e) (children e @ [c])"

text \<open>\<open>e.findall(name)\<close> with a plain tag name: the direct children with that tag, in
  document order.\<close>

definition findall :: "element \<Rightarrow> string \<Rightarrow> element list" where
  "findall e name = filter (\<lambda>c. tag c = name) (children e)"

subsection \<open>The fetcher\<close>

text \<open>
  \<open>fetch_epg\<close> runs its body under \<open>try\<close>, with three handlers: one for \<open>URLError\<close>
  and its subclass \<open>HTTPError\<close>, one for \<open>ParseError\<close>, one for every other
  \<open>Exception\<close>. An exception is its class and its message.
  The calls into urllib, gzip and ElementTree and the call of \<open>print\<close> are parameters.
  Each returns either the exception it raises or its value; \<open>lib_print\<close> is given the
  text written, line end included, and returns the exception it raises, if any. What the
  calls raise is a subclass of \<open>Exception\<close>: one of the two classes the handlers name,
  or any other one, which the last handler takes.
  The two prints of the body stand inside the \<open>try\<close>. The print of each handler stands
  outside it: an exception it raises leaves \<open>fetch_epg\<close>, which is the \<open>Inl\<close> of the
  result.
\<close>

datatype py_exception =
  URLError string | HTTPError string | ParseError string | OtherException string

record request =
  req_url :: string
  req_headers :: "(string \<times> string) list"

record response =
  resp_read :: "py_exception + string"
  resp_header :: "string \<Rightarrow> string option"

record library =
  lib_Request :: "string \<Rightarrow> (string \<times> string) list \<Rightarrow> py_exception + request"
  lib_urlopen :: "request \<Rightarrow> py_exception + response"
  lib_gzip_decompress :: "string \<Rightarrow> py_exception + string"
  lib_fromstring :: "string \<Rightarrow> py_exception + element"
  lib_print :: "string \<Rightarrow> py_exception option"

type_synonym fetch_result = "string \<times> element option \<times> string option"

definition request_headers :: "(string \<times> string) list" where
  "request_headers =
     [(''User-Agent'',
       ''Mozilla/5.0 (Macintosh; Intel Mac OS X 10_15_7) AppleWebKit/537.36''),
      (''Accept-Encoding'', ''gzip, deflate'')]"

text \<open>\<open>str(n)\<close> for an integer: its decimal digits, behind a minus sign when it is
  negative.\<close>

definition decimal_digit :: "nat \<Rightarrow> char" where
  "decimal_digit d = char_of (d + 48)"

fun decimal :: "nat \<Rightarrow> string" where
  "decimal n =
     (if 10 \<le> n then decimal (n div 10) @ [decimal_digit (n mod 10)]
      else [decimal_digit n])"

declare decimal.simps [simp del]

definition str_int :: "int \<Rightarrow> string" where
  "str_int k = (if 0 \<le> k then decimal (nat k) else CHR ''-'' # decimal (nat (- k)))"

text \<open>The body of the \<open>try\<close>: the first exception raised ends it.\<close>

definition fetch_body :: "library \<Rightarrow> string \<Rightarrow> string \<Rightarrow> py_exception + element" where
  "fetch_body lib name url =
     (case lib_print lib (''  Fetching '' @ name @ ''... '') of
        Some e \<Rightarrow> Inl e
      | None \<Rightarrow>
     (case lib_Request lib url request_headers of
        Inl e \<Rightarrow> Inl e
      | Inr req \<Rightarrow>
     (case lib_urlopen lib req of
        Inl e \<Rightarrow> Inl e
      | Inr resp \<Rightarrow>
     (case resp_read resp of
        Inl e \<Rightarrow> Inl e
      | Inr data \<Rightarrow>
     (case (if suffix ''.gz'' url \<or> resp_header resp ''Content-Encoding'' = Some ''gzip''
            then lib_gzip_decompress lib data else Inr data) of
        Inl e \<Rightarrow> Inl e
      | Inr data' \<Rightarrow>
     (case lib_fromstring lib data' of
        Inl e \<Rightarrow> Inl e
      | Inr root \<Rightarrow>
     (case lib_print lib
             (''OK ('' @ decimal (length (findall root ''channel'')) @
              '' channels, '' @ decimal (length (findall root ''programme'')) @
              '' programmes)\<newline>'') of
        Some e \<Rightarrow> Inl e
      | None \<Rightarrow> Inr root)))))))"

text \<open>\<open>str(e)\<close>\<close>

fun str :: "py_exception \<Rightarrow> string" where
  "str (URLError m) = m"
| "str (HTTPError m) = m"
| "str (ParseError m) = m"
| "str (OtherException m) = m"

text \<open>A handler: it prints its line and returns the failure; the print is not guarded.\<close>

definition handler :: "library \<Rightarrow> string \<Rightarrow> string \<Rightarrow> py_exception \<Rightarrow> py_exception + fetch_result" where
  "handler lib label name e =
     (case lib_print lib (label @ '' ('' @ str e @ '')\<newline>'') of
        Some e' \<Rightarrow> Inl e'
      | None \<Rightarrow> Inr (name, None, Some (str e)))"

definition fetch_epg :: "library \<Rightarrow> string \<Rightarrow> string \<Rightarrow> py_exception + fetch_result" where
  "fetch_epg lib name url =
     (case fetch_body lib name url of
        Inr root \<Rightarrow> Inr (name, Some root, None)
      | Inl e \<Rightarrow>
          (case e of
             URLError _ \<Rightarrow> handler lib ''FAILED'' name e
           | HTTPError _ \<Rightarrow> handler lib ''FAILED'' name e
           | ParseError _ \<Rightarrow> handler lib ''PARSE ERROR'' name e
           | OtherException _ \<Rightarrow> handler lib ''ERROR'' name e))"

subsection \<open>The merger\<close>

text \<open>
  The local variables of \<open>combine_epg_files\<close> that the loop over the completed futures
  reads and writes. \<open>combined\<close> is the output element, whose child list grows.
\<close>

record merge_state =
  combined :: element
  seen_channels :: "string set"
  seen_programmes :: "(string \<times> string \<times> string) set"
  total_channels :: nat
  total_programmes :: nat
  failed_sources :: "(string \<times> string) list"

definition initial_state :: "string \<Rightarrow> merge_state" where
  "initial_state date =
     \<lparr>combined =
        elem_set
          (elem_set
             (elem_set (Element ''tv'' [] [] [])
                ''generator-info-name'' ''CouchStreaming EPG Combiner'')
             ''generator-info-url'' ''https://github.com/globetvapp/epg'')
          ''date'' date,
      seen_channels = {},
      seen_programmes = {},
      total_channels = 0,
      total_programmes = 0,
      failed_sources = []\<rparr>"

definition channel_id :: "element \<Rightarrow> string" where
  "channel_id channel = elem_get channel ''id'' ''''"

definition prog_key :: "element \<Rightarrow> string \<times> string \<times> string" where
  "prog_key programme =
     (elem_get programme ''channel'' '''',
      elem_get programme ''start'' '''',
      elem_get programme ''stop'' '''')"

text \<open>One iteration of the loop over \<open>root.findall('channel')\<close>.\<close>

definition add_channel :: "merge_state \<Rightarrow> element \<Rightarrow> merge_state" where
  "add_channel st channel =
     (if channel_id channel \<noteq> [] \<and> channel_id channel \<notin> seen_channels st
      then st\<lparr>seen_channels := insert (channel_id channel) (seen_channels st),
              combined := append_child (combined st) channel,
              total_channels := total_channels st + 1\<rparr>
      else st)"

fun add_channels :: "merge_state \<Rightarrow> element list \<Rightarrow> merge_state" where
  "add_channels st [] = st"
| "add_channels st (c # cs) = add_channels (add_channel st c) cs"

text \<open>One iteration of the loop over \<open>root.findall('programme')\<close>.\<close>

definition add_programme :: "merge_state \<Rightarrow> element \<Rightarrow> merge_state" where
  "add_programme st programme =
     (if prog_key programme \<notin> seen_programmes st
      then st\<lparr>seen_programmes := insert (prog_key programme) (seen_programmes st),
              combined := append_child (combined st) programme,
              total_programmes := total_programmes st + 1\<rparr>
      else st)"

fun add_programmes :: "merge_state \<Rightarrow> element list \<Rightarrow> merge_state" where
  "add_programmes st [] = st"
| "add_programmes st (p # ps) = add_programmes (add_programme st p) ps"

text \<open>
  One iteration of the loop over the completed futures. \<open>if error:\<close> is Python's truth
  test: \<open>None\<close> and the empty string both fail it.
\<close>

definition truthy :: "string option \<Rightarrow> bool" where
  "truthy error = (case error of None \<Rightarrow> False | Some m \<Rightarrow> m \<noteq> [])"

fun merge_result :: "merge_state \<Rightarrow> fetch_result \<Rightarrow> merge_state" where
  "merge_result st (name, root, error) =
     (if truthy error
      then st\<lparr>failed_sources := failed_sources st @ [(name, the error)]\<rparr>
      else (case root of
              None \<Rightarrow> st
            | Some r \<Rightarrow>
                add_programmes (add_channels st (findall r ''channel''))
                  (findall r ''programme'')))"

fun merge_results :: "merge_state \<Rightarrow> fetch_result list \<Rightarrow> merge_state" where
  "merge_results st [] = st"
| "merge_results st (r # rs) = merge_results (merge_result st r) rs"

text \<open>
  \<open>combine_epg_files\<close>: the sources are fetched by a pool of threads and their results
  are merged in the order the fetches complete. That order is the parameter
  \<open>completed\<close>, the items of \<open>sources\<close> in completion order; \<open>date\<close> is the time stamp
  read from the clock. \<open>future.result()\<close> raises again what the fetch let out, which
  ends the run.
\<close>

definition fetch_all ::
  "library \<Rightarrow> (string \<times> string) list \<Rightarrow> (py_exception + fetch_result) list" where
  "fetch_all lib completed = map (\<lambda>(name, url). fetch_epg lib name url) completed"

fun merge_completed ::
  "merge_state \<Rightarrow> (py_exception + fetch_result) list \<Rightarrow> py_exception + merge_state" where
  "merge_completed st [] = Inr st"
| "merge_completed st (Inl e # fs) = Inl e"
| "merge_completed st (Inr r # fs) = merge_completed (merge_result st r) fs"

text \<open>The summary printed after the merge; the number of sources that succeeded is
  the number of sources less the length of the failure list.\<close>

definition sources_succeeded :: "nat \<Rightarrow> merge_state \<Rightarrow> int" where
  "sources_succeeded n st = int n - int (length (failed_sources st))"

definition statistics_lines :: "nat \<Rightarrow> merge_state \<Rightarrow> string list" where
  "statistics_lines n st =
     [''\<newline>'' @ replicate 50 (CHR ''='') @ ''\<newline>'',
      ''Combined EPG Statistics:\<newline>'',
      ''  Total channels: '' @ decimal (total_channels st) @ ''\<newline>'',
      ''  Total programmes: '' @ decimal (total_programmes st) @ ''\<newline>'',
      ''  Sources succeeded: '' @ str_int (sources_succeeded n st) @ ''/'' @
        decimal n @ ''\<newline>''] @
     (if failed_sources st \<noteq> []
      then ''\<newline>Failed sources:\<newline>'' #
           map (\<lambda>(name, error). ''  - '' @ name @ '': '' @ error @ ''\<newline>'')
             (failed_sources st)
      else [])"

fun print_all :: "library \<Rightarrow> string list \<Rightarrow> py_exception option" where
  "print_all lib [] = None"
| "print_all lib (t # ts) =
     (case lib_print lib t of Some e \<Rightarrow> Some e | None \<Rightarrow> print_all lib ts)"

definition combine_epg_files ::
  "library \<Rightarrow> string \<Rightarrow> (string \<times> string) list \<Rightarrow> py_exception + element" where
  "combine_epg_files lib date completed =
     (case lib_print lib
             (''\<newline>Fetching '' @ decimal (length completed) @
              '' EPG sources...\<newline>'') of
        Some e \<Rightarrow> Inl e
      | None \<Rightarrow>
     (case merge_completed (initial_state date) (fetch_all lib completed) of
        Inl e \<Rightarrow> Inl e
      | Inr st \<Rightarrow>
     (case print_all lib (statistics_lines (length completed) st) of
        Some e \<Rightarrow> Inl e
      | None \<Rightarrow> Inr (combined st))))"

text \<open>
  The states the merge passes through, one after each iteration of an inner loop and one
  after each result that is recorded as failed or skipped: \<open>loop_states f st xs\<close> lists
  the state after each element of \<open>xs\<close>.
\<close>

fun loop_states :: "('s \<Rightarrow> 'a \<Rightarrow> 's) \<Rightarrow> 's \<Rightarrow> 'a list \<Rightarrow> 's list" where
  "loop_states f st [] = []"
| "loop_states f st (x # xs) = f st x # loop_states f (f st x) xs"

fun result_trace :: "merge_state \<Rightarrow> fetch_result \<Rightarrow> merge_state list" where
  "result_trace st (name, root, error) =
     (if truthy error
      then [st\<lparr>failed_sources := failed_sources st @ [(name, the error)]\<rparr>]
      else (case root of
              None \<Rightarrow> [st]
            | Some r \<Rightarrow>
                loop_states add_channel st (findall r ''channel'') @
                loop_states add_programme (add_channels st (findall r ''channel''))
                  (findall r ''programme'')))"

fun merge_trace :: "merge_state \<Rightarrow> fetch_result list \<Rightarrow> merge_state list" where
  "merge_trace st [] = []"
| "merge_trace st (r # rs) = result_trace st r @ merge_trace (merge_result st r) rs"

definition merge_points :: "string \<Rightarrow> fetch_result list \<Rightarrow> merge_state list" where
  "merge_points date rs = initial_state date # merge_trace (initial_state date) rs"

subsection \<open>The writer\<close>

text \<open>
  \<open>write_xml\<close> serialises the tree with \<open>ET.tostring\<close>, opens the output path for
  writing, which empties the file, and writes three strings to it. The serialiser is the
  parameter \<open>tostring\<close>; whether the path can be opened is the parameter \<open>can_open\<close>, and
  an \<open>open\<close> that fails raises \<open>OSError\<close> to the caller. The file system maps a path to
  the content of the file there. The two lines printed once the file is closed, the path
  and the size, come after the content is complete and are left out.
\<close>

datatype io_error = OSError

type_synonym filesystem = "string \<rightharpoonup> string"

definition xml_declaration :: string where
  \<open>xml_declaration = ''<?xml version="1.0" encoding="UTF-8"?>\<newline>''\<close>

definition doctype_line :: string where
  \<open>doctype_line = ''<!DOCTYPE tv SYSTEM "xmltv.dtd">\<newline>''\<close>

definition file_write :: "string \<Rightarrow> string \<Rightarrow> string" where
  "file_write content data = content @ data"

definition write_xml ::
  "(element \<Rightarrow> string) \<Rightarrow> (string \<Rightarrow> bool) \<Rightarrow> filesystem \<Rightarrow> element \<Rightarrow> string
     \<Rightarrow> io_error + filesystem" where
  "write_xml tostring can_open fs root output_path =
     (let xml_str = tostring root in
      if \<not> can_open output_path then Inl OSError
      else
        let f = [];
            f = file_write f xml_declaration;
            f = file_write f doctype_line;
            f = file_write f xml_str
        in Inr (fs(output_path \<mapsto> f)))"

subsection \<open>Properties of the merge state\<close>

text \<open>
  The invariant of the merge: among the children of \<open>combined\<close>, the channels have
  distinct ids and the programmes distinct keys, the two seen sets hold exactly those ids
  and keys, the empty id was never accepted, and the counters count the children of each
  kind.
\<close>

definition merge_inv :: "merge_state \<Rightarrow> bool" where
  "merge_inv st \<longleftrightarrow>
     distinct (map channel_id (findall (combined st) ''channel'')) \<and>
     distinct (map prog_key (findall (combined st) ''programme'')) \<and>
     set (map channel_id (findall (combined st) ''channel'')) = seen_channels st \<and>
     set (map prog_key (findall (combined st) ''programme'')) = seen_programmes st \<and>
     [] \<notin> seen_channels st \<and>
     total_channels st = length (findall (combined st) ''channel'') \<and>
     total_programmes st = length (findall (combined st) ''programme'')"

text \<open>From one state to a later one the child sequence is extended at its end.\<close>

definition grows :: "merge_state \<Rightarrow> merge_state \<Rightarrow> bool" where
  "grows s t \<longleftrightarrow> prefix (children (combined s)) (children (combined t))"

text \<open>The ids and keys that merging one result can add to the seen sets.\<close>

fun result_channel_ids :: "fetch_result \<Rightarrow> string set" where
  "result_channel_ids (name, root, error) =
     (if truthy error then {}
      else (case root of
              None \<Rightarrow> {}
            | Some r \<Rightarrow> set (map channel_id (findall r ''channel'')) - {[]}))"

fun result_prog_keys :: "fetch_result \<Rightarrow> (string \<times> string \<times> string) set" where
  "result_prog_keys (name, root, error) =
     (if truthy error then {}
      else (case root of
              None \<Rightarrow> {}
            | Some r \<Rightarrow> set (map prog_key (findall r ''programme''))))"

text \<open>
  The elements of a list that are the first with their key and whose key is not in a
  given set, in the order of the list: the element at position \<open>i\<close> is taken when its
  key is neither in the set nor the key of an element before position \<open>i\<close>.
\<close>

definition first_unseen :: "('a \<Rightarrow> 'k) \<Rightarrow> 'k set \<Rightarrow> 'a list \<Rightarrow> 'a list" where
  "first_unseen key seen xs =
     map (nth xs)
       (filter (\<lambda>i. key (xs ! i) \<notin> seen \<and> key (xs ! i) \<notin> set (map key (take i xs)))
          [0..<length xs])"

text \<open>The channels and the programmes that a result brings to the two inner loops:
  none when the result is recorded as failed or skipped.\<close>

fun result_channels :: "fetch_result \<Rightarrow> element list" where
  "result_channels (name, root, error) =
     (if truthy error then []
      else (case root of None \<Rightarrow> [] | Some r \<Rightarrow> findall r ''channel''))"

fun result_programmes :: "fetch_result \<Rightarrow> element list" where
  "result_programmes (name, root, error) =
     (if truthy error then []
      else (case root of None \<Rightarrow> [] | Some r \<Rightarrow> findall r ''programme''))"

subsection \<open>Example documents\<close>

definition chan :: "string \<Rightarrow> element" where
  "chan i = Element ''channel'' [(''id'', i)] [] []"

definition prog :: "string \<Rightarrow> string \<Rightarrow> string \<Rightarrow> element" where
  "prog c s e = Element ''programme'' [(''channel'', c), (''start'', s), (''stop'', e)] [] []"

definition tv :: "element list \<Rightarrow> element" where
  "tv es = Element ''tv'' [] [] es"

text \<open>A library whose every request fails with the given exception, and one that
  answers every request with the given document; both print without failure. The last
  is a standard output that takes ASCII only: printing any other character raises.\<close>

definition failing_library :: "py_exception \<Rightarrow> library" where
  "failing_library e =
     \<lparr>lib_Request = (\<lambda>url hs. Inl e),
      lib_urlopen = (\<lambda>req. Inl e),
      lib_gzip_decompress = (\<lambda>d. Inl e),
      lib_fromstring = (\<lambda>d. Inl e),
      lib_print = (\<lambda>t. None)\<rparr>"

definition serving_library :: "element \<Rightarrow> library" where
  "serving_library root =
     \<lparr>lib_Request = (\<lambda>url hs. Inr \<lparr>req_url = url, req_headers = hs\<rparr>),
      lib_urlopen = (\<lambda>req. Inr \<lparr>resp_read = Inr [], resp_header = (\<lambda>h. None)\<rparr>),
      lib_gzip_decompress = (\<lambda>d. Inr d),
      lib_fromstring = (\<lambda>d. Inr root),
      lib_print = (\<lambda>t. None)\<rparr>"

definition ascii_stdout :: "string \<Rightarrow> py_exception option" where
  "ascii_stdout t =
     (if list_ex (\<lambda>c. 127 < (of_char c :: nat)) t
      then Some (OtherException ''ordinal not in range(128)'')
      else None)"

definition stamp :: string where
  "stamp = ''20240101000000''"

definition source_a :: fetch_result where
  "source_a = (''a'', Some (tv [chan ''1'', chan ''2'', prog ''1'' ''0900'' ''1000'']), None)"

definition source_b :: fetch_result where
  "source_b = (''b'', Some (tv [chan ''2'', chan ''3'', prog ''1'' ''0900'' ''1000'']), None)"

lemmas merge_eval =
  merge_points_def initial_state_def elem_set_def findall_def add_channel_def
  add_programme_def channel_id_def prog_key_def elem_get_def append_child_def truthy_def
  chan_def prog_def tv_def source_a_def source_b_def

section \<open>Auxiliary lemmas\<close>

subsection \<open>Elements and the invariant\<close>

lemma children_append_child [simp]: "children (append_child e c) = children e @ [c]"
  by (simp add: append_child_def)

lemma children_elem_set [simp]: "children (elem_set e k v) = children e"
  by (simp add: elem_set_def)

lemma findall_append_child:
  "findall (append_child e c) n = findall e n @ (if tag c = n then [c] else [])"
  by (simp add: findall_def)

lemma children_initial [simp]: "children (combined (initial_state date)) = []"
  by (simp add: initial_state_def)

lemma findall_initial [simp]: "findall (combined (initial_state date)) n = []"
  by (simp add: findall_def)

lemma tag_findall: "c \<in> set (findall r n) \<Longrightarrow> tag c = n"
  by (simp add: findall_def)

lemma merge_inv_initial: "merge_inv (initial_state date)"
  by (simp add: merge_inv_def) (simp add: initial_state_def)

lemma merge_inv_add_channel:
  assumes "tag c = ''channel''" and "merge_inv st"
  shows "merge_inv (add_channel st c)"
  using assms by (auto simp: merge_inv_def add_channel_def findall_append_child)

lemma merge_inv_add_programme:
  assumes "tag p = ''programme''" and "merge_inv st"
  shows "merge_inv (add_programme st p)"
  using assms by (auto simp: merge_inv_def add_programme_def findall_append_child)

lemma merge_inv_failed:
  "merge_inv st \<Longrightarrow> merge_inv (st\<lparr>failed_sources := fs\<rparr>)"
  by (simp add: merge_inv_def)

lemma merge_inv_add_channels:
  "\<forall>c \<in> set cs. tag c = ''channel'' \<Longrightarrow> merge_inv st \<Longrightarrow> merge_inv (add_channels st cs)"
  by (induction cs arbitrary: st) (simp_all add: merge_inv_add_channel)

lemma merge_inv_add_programmes:
  "\<forall>c \<in> set ps. tag c = ''programme'' \<Longrightarrow> merge_inv st \<Longrightarrow> merge_inv (add_programmes st ps)"
  by (induction ps arbitrary: st) (simp_all add: merge_inv_add_programme)

lemma merge_inv_channel_states:
  "\<forall>c \<in> set cs. tag c = ''channel'' \<Longrightarrow> merge_inv st \<Longrightarrow>
   s \<in> set (loop_states add_channel st cs) \<Longrightarrow> merge_inv s"
proof (induction cs arbitrary: st)
  case Nil
  then show ?case by simp
next
  case (Cons c cs)
  have step: "merge_inv (add_channel st c)"
    using Cons.prems by (simp add: merge_inv_add_channel)
  show ?case
  proof (cases "s = add_channel st c")
    case True
    with step show ?thesis by simp
  next
    case False
    with Cons.prems have "s \<in> set (loop_states add_channel (add_channel st c) cs)" by simp
    with Cons.IH [OF _ step] Cons.prems show ?thesis by simp
  qed
qed

lemma merge_inv_programme_states:
  "\<forall>c \<in> set ps. tag c = ''programme'' \<Longrightarrow> merge_inv st \<Longrightarrow>
   s \<in> set (loop_states add_programme st ps) \<Longrightarrow> merge_inv s"
proof (induction ps arbitrary: st)
  case Nil
  then show ?case by simp
next
  case (Cons p ps)
  have step: "merge_inv (add_programme st p)"
    using Cons.prems by (simp add: merge_inv_add_programme)
  show ?case
  proof (cases "s = add_programme st p")
    case True
    with step show ?thesis by simp
  next
    case False
    with Cons.prems have "s \<in> set (loop_states add_programme (add_programme st p) ps)" by simp
    with Cons.IH [OF _ step] Cons.prems show ?thesis by simp
  qed
qed

lemma merge_inv_merge_result: "merge_inv st \<Longrightarrow> merge_inv (merge_result st r)"
  by (cases r)
     (auto simp: merge_inv_failed merge_inv_add_channels merge_inv_add_programmes tag_findall
           split: option.splits)

lemma merge_inv_result_trace:
  "merge_inv st \<Longrightarrow> s \<in> set (result_trace st r) \<Longrightarrow> merge_inv s"
  by (cases r)
     (auto simp: merge_inv_failed merge_inv_add_channels tag_findall
           split: option.splits if_splits
           dest: merge_inv_channel_states [rotated 2] merge_inv_programme_states [rotated 2])

lemma merge_inv_merge_trace:
  "merge_inv st \<Longrightarrow> s \<in> set (merge_trace st rs) \<Longrightarrow> merge_inv s"
  by (induction rs arbitrary: st) (auto dest: merge_inv_result_trace merge_inv_merge_result)

lemma merge_inv_merge_points: "s \<in> set (merge_points date rs) \<Longrightarrow> merge_inv s"
  by (auto simp: merge_points_def merge_inv_initial dest: merge_inv_merge_trace [rotated])


lemma merge_inv_channel_id:
  assumes "merge_inv s" and "x \<in> set (findall (combined s) ''channel'')"
  shows "channel_id x \<noteq> []"
proof -
  from assms(2) have "channel_id x \<in> set (map channel_id (findall (combined s) ''channel''))"
    by simp
  with assms(1) have "channel_id x \<in> seen_channels s"
    unfolding merge_inv_def by blast
  moreover from assms(1) have "[] \<notin> seen_channels s"
    by (simp add: merge_inv_def)
  ultimately show ?thesis by auto
qed

subsection \<open>The child sequence only grows\<close>

lemma grows_refl: "grows s s"
  by (simp add: grows_def)

lemma grows_trans: "grows s t \<Longrightarrow> grows t u \<Longrightarrow> grows s u"
  unfolding grows_def by (rule prefix_order.trans)

lemma grows_add_channel: "grows st (add_channel st c)"
  by (simp add: grows_def add_channel_def)

lemma grows_add_programme: "grows st (add_programme st p)"
  by (simp add: grows_def add_programme_def)

lemma chain_loop_states:
  assumes step: "\<And>s x. grows s (f s x)"
  shows "sorted_wrt grows (st # loop_states f st xs)"
proof (induction xs arbitrary: st)
  case Nil
  show ?case by simp
next
  case (Cons x xs)
  have tail: "sorted_wrt grows (f st x # loop_states f (f st x) xs)"
    by (rule Cons.IH)
  have "grows st y" if "y \<in> set (f st x # loop_states f (f st x) xs)" for y
  proof (cases "y = f st x")
    case True
    then show ?thesis by (simp add: step)
  next
    case False
    with that tail have "grows (f st x) y" by auto
    with step [of st x] show ?thesis by (rule grows_trans)
  qed
  with tail show ?case by simp
qed

lemma chain_to_last: "sorted_wrt grows (a # xs) \<Longrightarrow> x \<in> set (a # xs) \<Longrightarrow> grows x (last (a # xs))"
proof (induction xs arbitrary: a)
  case Nil
  then show ?case by (simp add: grows_refl)
next
  case (Cons b xs)
  show ?case
  proof (cases "x = a")
    case True
    have "last (a # b # xs) \<in> set (b # xs)" using last_in_set [of "b # xs"] by simp
    with Cons.prems(1) True show ?thesis by auto
  next
    case False
    with Cons.prems have "x \<in> set (b # xs)" and "sorted_wrt grows (b # xs)" by auto
    with Cons.IH [of b] show ?thesis by simp
  qed
qed

lemma chain_join:
  assumes "sorted_wrt grows (a # xs)" and "sorted_wrt grows (last (a # xs) # ys)"
  shows "sorted_wrt grows (a # xs @ ys)"
proof -
  have "grows x y" if "x \<in> set (a # xs)" and "y \<in> set ys" for x y
  proof -
    from assms(1) that(1) have "grows x (last (a # xs))" by (rule chain_to_last)
    moreover from assms(2) that(2) have "grows (last (a # xs)) y" by simp
    ultimately show ?thesis by (rule grows_trans)
  qed
  with assms have "sorted_wrt grows ((a # xs) @ ys)"
    unfolding sorted_wrt_append by simp
  then show ?thesis by simp
qed

lemma last_join: "last (a # xs @ ys) = last (last (a # xs) # ys)"
  by (cases ys) simp_all

lemma last_channel_states: "last (st # loop_states add_channel st cs) = add_channels st cs"
  by (induction cs arbitrary: st) simp_all

lemma last_programme_states: "last (st # loop_states add_programme st ps) = add_programmes st ps"
  by (induction ps arbitrary: st) simp_all

lemma last_result_trace: "last (st # result_trace st r) = merge_result st r"
proof (cases r)
  case (fields name root error)
  show ?thesis
  proof (cases "truthy error \<or> root = None")
    case True
    with fields show ?thesis by auto
  next
    case False
    then obtain d where d: "root = Some d" and e: "\<not> truthy error" by auto
    have "last (st # loop_states add_channel st (findall d ''channel'') @
            loop_states add_programme (add_channels st (findall d ''channel''))
              (findall d ''programme'')) =
          add_programmes (add_channels st (findall d ''channel'')) (findall d ''programme'')"
      by (simp only: last_join last_channel_states last_programme_states)
    with fields d e show ?thesis by simp
  qed
qed

lemma chain_result_trace: "sorted_wrt grows (st # result_trace st r)"
proof (cases r)
  case (fields name root error)
  show ?thesis
  proof (cases "truthy error \<or> root = None")
    case True
    with fields show ?thesis by (auto simp: grows_def)
  next
    case False
    then obtain d where d: "root = Some d" and e: "\<not> truthy error" by auto
    have "sorted_wrt grows
            (st # loop_states add_channel st (findall d ''channel'') @
               loop_states add_programme (add_channels st (findall d ''channel''))
                 (findall d ''programme''))"
    proof (rule chain_join)
      show "sorted_wrt grows (st # loop_states add_channel st (findall d ''channel''))"
        by (rule chain_loop_states) (rule grows_add_channel)
      show "sorted_wrt grows
              (last (st # loop_states add_channel st (findall d ''channel'')) #
                 loop_states add_programme (add_channels st (findall d ''channel''))
                   (findall d ''programme''))"
        unfolding last_channel_states
        by (rule chain_loop_states) (rule grows_add_programme)
    qed
    with fields d e show ?thesis by simp
  qed
qed

lemma last_merge_trace: "last (st # merge_trace st rs) = merge_results st rs"
proof (induction rs arbitrary: st)
  case Nil
  show ?case by simp
next
  case (Cons r rs)
  have "last (st # result_trace st r @ merge_trace (merge_result st r) rs) =
        last (merge_result st r # merge_trace (merge_result st r) rs)"
    by (simp only: last_join last_result_trace)
  with Cons.IH [of "merge_result st r"] show ?case by simp
qed

lemma chain_merge_trace: "sorted_wrt grows (st # merge_trace st rs)"
proof (induction rs arbitrary: st)
  case Nil
  show ?case by simp
next
  case (Cons r rs)
  have "sorted_wrt grows (st # result_trace st r @ merge_trace (merge_result st r) rs)"
  proof (rule chain_join)
    show "sorted_wrt grows (st # result_trace st r)" by (rule chain_result_trace)
    show "sorted_wrt grows (last (st # result_trace st r) # merge_trace (merge_result st r) rs)"
      unfolding last_result_trace by (rule Cons.IH)
  qed
  then show ?case by simp
qed

subsection \<open>What a merge adds to the seen sets\<close>

lemma merge_inv_merge_results: "merge_inv st \<Longrightarrow> merge_inv (merge_results st rs)"
  by (induction rs arbitrary: st) (simp_all add: merge_inv_merge_result)

lemma seen_add_channels:
  "seen_channels (add_channels st cs) = seen_channels st \<union> (set (map channel_id cs) - {[]}) \<and>
   seen_programmes (add_channels st cs) = seen_programmes st"
proof (induction cs arbitrary: st)
  case Nil
  show ?case by simp
next
  case (Cons c cs)
  have "seen_channels (add_channel st c) = seen_channels st \<union> ({channel_id c} - {[]})"
    and "seen_programmes (add_channel st c) = seen_programmes st"
    by (auto simp: add_channel_def)
  with Cons.IH [of "add_channel st c"] show ?case by auto
qed

lemma seen_add_programmes:
  "seen_programmes (add_programmes st ps) = seen_programmes st \<union> set (map prog_key ps) \<and>
   seen_channels (add_programmes st ps) = seen_channels st"
proof (induction ps arbitrary: st)
  case Nil
  show ?case by simp
next
  case (Cons p ps)
  have "seen_programmes (add_programme st p) = insert (prog_key p) (seen_programmes st)"
    and "seen_channels (add_programme st p) = seen_channels st"
    by (auto simp: add_programme_def)
  with Cons.IH [of "add_programme st p"] show ?case by auto
qed

lemma seen_merge_result:
  "seen_channels (merge_result st r) = seen_channels st \<union> result_channel_ids r \<and>
   seen_programmes (merge_result st r) = seen_programmes st \<union> result_prog_keys r"
proof (cases r)
  case (fields name root error)
  show ?thesis
  proof (cases "truthy error \<or> root = None")
    case True
    with fields show ?thesis by auto
  next
    case False
    then obtain d where "root = Some d" and "\<not> truthy error" by auto
    with fields show ?thesis
      by (simp add: seen_add_programmes seen_add_channels)
  qed
qed

lemma seen_merge_results:
  "seen_channels (merge_results st rs) = seen_channels st \<union> (\<Union>r \<in> set rs. result_channel_ids r) \<and>
   seen_programmes (merge_results st rs) = seen_programmes st \<union> (\<Union>r \<in> set rs. result_prog_keys r)"
proof (induction rs arbitrary: st)
  case Nil
  show ?case by simp
next
  case (Cons r rs)
  from Cons.IH [of "merge_result st r"] seen_merge_result [of st r]
  show ?case by auto
qed

subsection \<open>Entities whose keys are all seen\<close>

lemma add_channels_all_seen:
  "set (map channel_id cs) - {[]} \<subseteq> seen_channels st \<Longrightarrow> add_channels st cs = st"
proof (induction cs)
  case Nil
  show ?case by simp
next
  case (Cons c cs)
  then have "add_channel st c = st" by (auto simp: add_channel_def)
  with Cons show ?case by auto
qed

lemma add_programmes_all_seen:
  "set (map prog_key ps) \<subseteq> seen_programmes st \<Longrightarrow> add_programmes st ps = st"
proof (induction ps)
  case Nil
  show ?case by simp
next
  case (Cons p ps)
  then have "add_programme st p = st" by (simp add: add_programme_def)
  with Cons show ?case by simp
qed

lemma merge_result_all_seen:
  assumes "result_channel_ids (name, Some d, None) \<subseteq> seen_channels st"
    and "result_prog_keys (name, Some d, None) \<subseteq> seen_programmes st"
  shows "merge_result st (name, Some d, None) = st"
proof -
  from assms(1) have "add_channels st (findall d ''channel'') = st"
    by (intro add_channels_all_seen) (simp add: truthy_def)
  moreover from assms(2) have "add_programmes st (findall d ''programme'') = st"
    by (intro add_programmes_all_seen) (simp add: truthy_def)
  ultimately show ?thesis by (simp add: truthy_def)
qed

subsection \<open>What a merge appends\<close>

lemma children_add_channels:
  "\<exists>cs'. children (combined (add_channels st cs)) = children (combined st) @ cs' \<and> subseq cs' cs"
proof (induction cs arbitrary: st)
  case Nil
  show ?case by simp
next
  case (Cons c cs)
  from Cons.IH [of "add_channel st c"] obtain cs' where
    rest: "children (combined (add_channels (add_channel st c) cs)) =
           children (combined (add_channel st c)) @ cs'" and sub: "subseq cs' cs"
    by blast
  show ?case
  proof (cases "add_channel st c = st")
    case True
    with rest sub show ?thesis by (auto intro: exI [of _ cs'])
  next
    case False
    then have "children (combined (add_channel st c)) = children (combined st) @ [c]"
      by (auto simp: add_channel_def)
    with rest sub show ?thesis by (auto intro: exI [of _ "c # cs'"])
  qed
qed

lemma children_add_programmes:
  "\<exists>ps'. children (combined (add_programmes st ps)) = children (combined st) @ ps' \<and> subseq ps' ps"
proof (induction ps arbitrary: st)
  case Nil
  show ?case by simp
next
  case (Cons p ps)
  from Cons.IH [of "add_programme st p"] obtain ps' where
    rest: "children (combined (add_programmes (add_programme st p) ps)) =
           children (combined (add_programme st p)) @ ps'" and sub: "subseq ps' ps"
    by blast
  show ?case
  proof (cases "add_programme st p = st")
    case True
    with rest sub show ?thesis by (auto intro: exI [of _ ps'])
  next
    case False
    then have "children (combined (add_programme st p)) = children (combined st) @ [p]"
      by (auto simp: add_programme_def)
    with rest sub show ?thesis by (auto intro: exI [of _ "p # ps'"])
  qed
qed

subsection \<open>The failure list and the two loops\<close>

lemma add_channel_failed:
  "add_channel (s\<lparr>failed_sources := fs\<rparr>) c = (add_channel s c)\<lparr>failed_sources := fs\<rparr>"
  by (simp add: add_channel_def)

lemma add_programme_failed:
  "add_programme (s\<lparr>failed_sources := fs\<rparr>) p = (add_programme s p)\<lparr>failed_sources := fs\<rparr>"
  by (simp add: add_programme_def)

lemma add_channels_failed:
  "add_channels (s\<lparr>failed_sources := fs\<rparr>) cs = (add_channels s cs)\<lparr>failed_sources := fs\<rparr>"
  by (induction cs arbitrary: s) (simp_all only: add_channels.simps add_channel_failed)

lemma add_programmes_failed:
  "add_programmes (s\<lparr>failed_sources := fs\<rparr>) ps = (add_programmes s ps)\<lparr>failed_sources := fs\<rparr>"
  by (induction ps arbitrary: s) (simp_all only: add_programmes.simps add_programme_failed)

lemma failed_add_channels: "failed_sources (add_channels s cs) = failed_sources s"
proof (induction cs arbitrary: s)
  case Nil
  show ?case by simp
next
  case (Cons c cs)
  have "failed_sources (add_channel s c) = failed_sources s"
    by (simp add: add_channel_def)
  with Cons.IH [of "add_channel s c"] show ?case by simp
qed

lemma failed_add_programmes: "failed_sources (add_programmes s ps) = failed_sources s"
proof (induction ps arbitrary: s)
  case Nil
  show ?case by simp
next
  case (Cons p ps)
  have "failed_sources (add_programme s p) = failed_sources s"
    by (simp add: add_programme_def)
  with Cons.IH [of "add_programme s p"] show ?case by simp
qed

subsection \<open>First elements with an unseen key\<close>

lemma first_unseen_Nil [simp]: "first_unseen key seen [] = []"
  by (simp add: first_unseen_def)

lemma first_unseen_snoc:
  "first_unseen key seen (xs @ [x]) =
     first_unseen key seen xs @ (if key x \<notin> seen \<and> key x \<notin> set (map key xs) then [x] else [])"
proof -
  let ?P = "\<lambda>ys i. key (ys ! i) \<notin> seen \<and> key (ys ! i) \<notin> set (map key (take i ys))"
  have old: "filter (?P (xs @ [x])) [0..<length xs] = filter (?P xs) [0..<length xs]"
    by (rule filter_cong) (simp_all add: nth_append)
  have same: "map (nth (xs @ [x])) (filter (?P xs) [0..<length xs]) =
      map (nth xs) (filter (?P xs) [0..<length xs])"
    by (rule map_cong) (simp_all add: nth_append)
  have last: "?P (xs @ [x]) (length xs) \<longleftrightarrow> key x \<notin> seen \<and> key x \<notin> set (map key xs)"
    by simp
  have "first_unseen key seen (xs @ [x]) =
      map (nth (xs @ [x])) (filter (?P (xs @ [x])) ([0..<length xs] @ [length xs]))"
    by (simp add: first_unseen_def)
  also have "\<dots> = map (nth (xs @ [x])) (filter (?P xs) [0..<length xs]) @
      map (nth (xs @ [x])) (filter (?P (xs @ [x])) [length xs])"
    by (simp only: filter_append map_append old)
  also have "\<dots> = first_unseen key seen xs @
      (if key x \<notin> seen \<and> key x \<notin> set (map key xs) then [x] else [])"
    unfolding same using last by (simp add: first_unseen_def)
  finally show ?thesis .
qed

lemma first_unseen_append:
  "first_unseen key seen (xs @ ys) =
     first_unseen key seen xs @ first_unseen key (seen \<union> set (map key xs)) ys"
proof (induction ys rule: rev_induct)
  case Nil
  show ?case by simp
next
  case (snoc y ys)
  have "first_unseen key seen (xs @ ys @ [y]) = first_unseen key seen ((xs @ ys) @ [y])"
    by simp
  also have "\<dots> = first_unseen key seen (xs @ ys) @
      (if key y \<notin> seen \<and> key y \<notin> set (map key (xs @ ys)) then [y] else [])"
    by (rule first_unseen_snoc)
  also have "\<dots> = first_unseen key seen xs @ first_unseen key (seen \<union> set (map key xs)) ys @
      (if key y \<notin> seen \<union> set (map key xs) \<and> key y \<notin> set (map key ys) then [y] else [])"
    using snoc.IH by auto
  also have "\<dots> = first_unseen key seen xs @
      first_unseen key (seen \<union> set (map key xs)) (ys @ [y])"
    by (simp only: first_unseen_snoc)
  finally show ?case .
qed

lemma set_first_unseen: "set (first_unseen key seen xs) \<subseteq> set xs"
  by (auto simp: first_unseen_def)

lemma filter_first_unseen_all:
  assumes "\<And>x. x \<in> set xs \<Longrightarrow> P x"
  shows "filter P (first_unseen key seen xs) = first_unseen key seen xs"
proof -
  have "\<forall>x \<in> set (first_unseen key seen xs). P x"
    using set_first_unseen [of key seen xs] assms by blast
  then show ?thesis by simp
qed

lemma filter_first_unseen_none:
  assumes "\<And>x. x \<in> set xs \<Longrightarrow> \<not> P x"
  shows "filter P (first_unseen key seen xs) = []"
proof -
  have "\<forall>x \<in> set (first_unseen key seen xs). \<not> P x"
    using set_first_unseen [of key seen xs] assms by blast
  then show ?thesis by simp
qed

lemma find_snoc:
  "List.find P (xs @ [x]) =
     (case List.find P xs of None \<Rightarrow> (if P x then Some x else None) | Some y \<Rightarrow> Some y)"
  by (induction xs) simp_all

lemma filter_key_first_unseen:
  "filter (\<lambda>x. key x = k) (first_unseen key {} xs) =
     (case List.find (\<lambda>x. key x = k) xs of None \<Rightarrow> [] | Some x \<Rightarrow> [x])"
proof (induction xs rule: rev_induct)
  case Nil
  show ?case by simp
next
  case (snoc x xs)
  show ?case
  proof (cases "List.find (\<lambda>x. key x = k) xs")
    case None
    then have "k \<notin> set (map key xs)"
      by (auto simp: find_None_iff)
    with None snoc.IH show ?thesis
      by (simp add: first_unseen_snoc find_snoc)
  next
    case (Some y)
    then have "k \<in> set (map key xs)"
      by (auto simp: find_Some_iff)
    with Some snoc.IH show ?thesis
      by (auto simp: first_unseen_snoc find_snoc)
  qed
qed

subsection \<open>The children that a merge appends\<close>

lemma add_channels_snoc: "add_channels st (cs @ [c]) = add_channel (add_channels st cs) c"
  by (induction cs arbitrary: st) simp_all

lemma add_programmes_snoc: "add_programmes st (ps @ [p]) = add_programme (add_programmes st ps) p"
  by (induction ps arbitrary: st) simp_all

lemma children_add_channels_exact:
  "children (combined (add_channels st cs)) =
     children (combined st) @ first_unseen channel_id (insert [] (seen_channels st)) cs"
proof (induction cs rule: rev_induct)
  case Nil
  show ?case by simp
next
  case (snoc c cs)
  have seen: "seen_channels (add_channels st cs) =
      seen_channels st \<union> (set (map channel_id cs) - {[]})"
    using seen_add_channels [of st cs] by (rule conjunct1)
  have "children (combined (add_channel (add_channels st cs) c)) =
      children (combined (add_channels st cs)) @
      (if channel_id c \<notin> insert [] (seen_channels st) \<and> channel_id c \<notin> set (map channel_id cs)
       then [c] else [])"
    unfolding add_channel_def seen by auto
  with snoc.IH show ?case
    by (simp only: add_channels_snoc first_unseen_snoc append_assoc)
qed

lemma children_add_programmes_exact:
  "children (combined (add_programmes st ps)) =
     children (combined st) @ first_unseen prog_key (seen_programmes st) ps"
proof (induction ps rule: rev_induct)
  case Nil
  show ?case by simp
next
  case (snoc p ps)
  have seen: "seen_programmes (add_programmes st ps) =
      seen_programmes st \<union> set (map prog_key ps)"
    using seen_add_programmes [of st ps] by (rule conjunct1)
  have "children (combined (add_programme (add_programmes st ps) p)) =
      children (combined (add_programmes st ps)) @
      (if prog_key p \<notin> seen_programmes st \<and> prog_key p \<notin> set (map prog_key ps)
       then [p] else [])"
    unfolding add_programme_def seen by auto
  with snoc.IH show ?case
    by (simp only: add_programmes_snoc first_unseen_snoc append_assoc)
qed

lemma tag_result_channels: "c \<in> set (result_channels r) \<Longrightarrow> tag c = ''channel''"
  by (cases r) (auto simp: findall_def split: if_splits option.splits)

lemma tag_result_programmes: "p \<in> set (result_programmes r) \<Longrightarrow> tag p = ''programme''"
  by (cases r) (auto simp: findall_def split: if_splits option.splits)

lemma children_merge_result_exact:
  "children (combined (merge_result st r)) =
     children (combined st) @
     first_unseen channel_id (insert [] (seen_channels st)) (result_channels r) @
     first_unseen prog_key (seen_programmes st) (result_programmes r)"
proof (cases r)
  case (fields name root error)
  show ?thesis
  proof (cases "truthy error \<or> root = None")
    case True
    with fields show ?thesis by auto
  next
    case False
    then obtain d where d: "root = Some d" and e: "\<not> truthy error" by auto
    have "seen_programmes (add_channels st (findall d ''channel'')) = seen_programmes st"
      using seen_add_channels [of st "findall d ''channel''"] by (rule conjunct2)
    with fields d e show ?thesis
      by (simp add: children_add_programmes_exact children_add_channels_exact)
  qed
qed

lemma channels_merge_result_exact:
  "findall (combined (merge_result st r)) ''channel'' =
     findall (combined st) ''channel'' @
     first_unseen channel_id (insert [] (seen_channels st)) (result_channels r)"
proof -
  have c: "filter (\<lambda>c. tag c = ''channel'')
      (first_unseen channel_id (insert [] (seen_channels st)) (result_channels r)) =
      first_unseen channel_id (insert [] (seen_channels st)) (result_channels r)"
    by (rule filter_first_unseen_all) (rule tag_result_channels)
  have p: "filter (\<lambda>c. tag c = ''channel'')
      (first_unseen prog_key (seen_programmes st) (result_programmes r)) = []"
    by (rule filter_first_unseen_none) (simp add: tag_result_programmes)
  show ?thesis
    unfolding findall_def children_merge_result_exact filter_append c p by simp
qed

lemma programmes_merge_result_exact:
  "findall (combined (merge_result st r)) ''programme'' =
     findall (combined st) ''programme'' @
     first_unseen prog_key (seen_programmes st) (result_programmes r)"
proof -
  have c: "filter (\<lambda>c. tag c = ''programme'')
      (first_unseen channel_id (insert [] (seen_channels st)) (result_channels r)) = []"
    by (rule filter_first_unseen_none) (simp add: tag_result_channels)
  have p: "filter (\<lambda>c. tag c = ''programme'')
      (first_unseen prog_key (seen_programmes st) (result_programmes r)) =
      first_unseen prog_key (seen_programmes st) (result_programmes r)"
    by (rule filter_first_unseen_all) (rule tag_result_programmes)
  show ?thesis
    unfolding findall_def children_merge_result_exact filter_append c p by simp
qed

lemma result_channel_ids_eq:
  "result_channel_ids r = set (map channel_id (result_channels r)) - {[]}"
  by (cases r) (simp split: option.splits)

lemma result_prog_keys_eq: "result_prog_keys r = set (map prog_key (result_programmes r))"
  by (cases r) (simp split: option.splits)

lemma channels_merge_results_exact:
  "findall (combined (merge_results st rs)) ''channel'' =
     findall (combined st) ''channel'' @
     first_unseen channel_id (insert [] (seen_channels st)) (concat (map result_channels rs))"
proof (induction rs arbitrary: st)
  case Nil
  show ?case by simp
next
  case (Cons r rs)
  have "seen_channels (merge_result st r) =
      seen_channels st \<union> (set (map channel_id (result_channels r)) - {[]})"
    using seen_merge_result [of st r] by (simp only: result_channel_ids_eq)
  then have seen: "insert [] (seen_channels (merge_result st r)) =
      insert [] (seen_channels st) \<union> set (map channel_id (result_channels r))"
    by blast
  have "findall (combined (merge_results st (r # rs))) ''channel'' =
      findall (combined (merge_result st r)) ''channel'' @
      first_unseen channel_id (insert [] (seen_channels (merge_result st r)))
        (concat (map result_channels rs))"
    using Cons.IH [of "merge_result st r"] by simp
  then show ?case
    unfolding seen channels_merge_result_exact
    by (simp add: first_unseen_append)
qed

lemma programmes_merge_results_exact:
  "findall (combined (merge_results st rs)) ''programme'' =
     findall (combined st) ''programme'' @
     first_unseen prog_key (seen_programmes st) (concat (map result_programmes rs))"
proof (induction rs arbitrary: st)
  case Nil
  show ?case by simp
next
  case (Cons r rs)
  have seen: "seen_programmes (merge_result st r) =
      seen_programmes st \<union> set (map prog_key (result_programmes r))"
    using seen_merge_result [of st r] by (simp only: result_prog_keys_eq)
  have "findall (combined (merge_results st (r # rs))) ''programme'' =
      findall (combined (merge_result st r)) ''programme'' @
      first_unseen prog_key (seen_programmes (merge_result st r))
        (concat (map result_programmes rs))"
    using Cons.IH [of "merge_result st r"] by simp
  then show ?case
    unfolding seen programmes_merge_result_exact
    by (simp add: first_unseen_append)
qed

section \<open>The claims\<close>

text \<open>
  C1. At every point during and after the merge, no two channel children of the combined
  element have the same id and no two programme children the same (channel, start, stop)
  key; the child sequence of every point is a prefix of that of every later point, so the
  entities stand in the order in which they were accepted. The last point is the state
  \<open>combine_epg_files\<close> returns from.
\<close>

theorem merge_keys_unique_in_acceptance_order:
  "(\<forall>st \<in> set (merge_points date rs).
      distinct (map channel_id (findall (combined st) ''channel'')) \<and>
      distinct (map prog_key (findall (combined st) ''programme''))) \<and>
   sorted_wrt (\<lambda>s t. prefix (children (combined s)) (children (combined t)))
     (merge_points date rs) \<and>
   last (merge_points date rs) = merge_results (initial_state date) rs"
proof -
  have uniq: "\<forall>st \<in> set (merge_points date rs).
      distinct (map channel_id (findall (combined st) ''channel'')) \<and>
      distinct (map prog_key (findall (combined st) ''programme''))"
    using merge_inv_merge_points [of _ date rs] by (simp add: merge_inv_def)
  have "grows = (\<lambda>s t. prefix (children (combined s)) (children (combined t)))"
    by (simp add: fun_eq_iff grows_def)
  with chain_merge_trace [of "initial_state date" rs]
  have order: "sorted_wrt (\<lambda>s t. prefix (children (combined s)) (children (combined t)))
     (merge_points date rs)"
    by (simp only: merge_points_def)
  have final: "last (merge_points date rs) = merge_results (initial_state date) rs"
    unfolding merge_points_def by (rule last_merge_trace)
  from uniq order final show ?thesis by blast
qed

theorem merge_keys_unique_witness:
  "merge_results (initial_state stamp) [source_a, source_b]
     \<in> set (merge_points stamp [source_a, source_b]) \<and>
   map channel_id
     (findall (combined (merge_results (initial_state stamp) [source_a, source_b]))
        ''channel'') = [''1'', ''2'', ''3''] \<and>
   distinct (map channel_id
     (findall (combined (merge_results (initial_state stamp) [source_a, source_b]))
        ''channel'')) \<and>
   distinct (map prog_key
     (findall (combined (merge_results (initial_state stamp) [source_a, source_b]))
        ''programme''))"
proof -
  have mem: "merge_results (initial_state stamp) [source_a, source_b]
     \<in> set (merge_points stamp [source_a, source_b])"
    by (simp add: merge_eval)
  have ids: "map channel_id
     (findall (combined (merge_results (initial_state stamp) [source_a, source_b]))
        ''channel'') = [''1'', ''2'', ''3'']"
    by (simp add: merge_eval)
  from mem ids merge_keys_unique_in_acceptance_order [of stamp "[source_a, source_b]"]
  show ?thesis by blast
qed

text \<open>
  C2. In an iteration of the channel loop the channel is appended to the combined element
  exactly when its \<open>id\<close> attribute is present, not empty and not in the seen-channel set;
  otherwise the iteration leaves the state as it was. At no point of a merge does the
  combined element have a channel child whose id is missing or empty.

  The loop is run on every channel of a successful document, in document order. When
  the channel at position \<open>i\<close> is reached the seen-channel set is the one from before the
  document together with the ids, other than the empty one, of the channels before
  position \<open>i\<close>. So merging the document appends exactly the channels whose id is not
  empty, not in the seen-channel set from before, and not the id of an earlier channel of
  the document. Over a whole run the channel children of the output are exactly the
  channels of the merged documents, in the order of processing, that have an id that is
  not empty and that no channel before them has.
\<close>

theorem channel_appended_iff:
  "(children (combined (add_channel st c)) = children (combined st) @ [c]
      \<longleftrightarrow> (\<exists>v. map_of (attrib c) ''id'' = Some v \<and> v \<noteq> [] \<and> v \<notin> seen_channels st)) \<and>
   ((\<exists>v. map_of (attrib c) ''id'' = Some v \<and> v \<noteq> [] \<and> v \<notin> seen_channels st)
      \<or> add_channel st c = st) \<and>
   (\<forall>s \<in> set (merge_points date rs). \<forall>x \<in> set (findall (combined s) ''channel'').
      \<exists>v. map_of (attrib x) ''id'' = Some v \<and> v \<noteq> []) \<and>
   channel_id c = (case map_of (attrib c) ''id'' of None \<Rightarrow> [] | Some v \<Rightarrow> v) \<and>
   seen_channels (add_channels st (take i (findall root ''channel''))) =
     seen_channels st \<union> (set (map channel_id (take i (findall root ''channel''))) - {[]}) \<and>
   findall (combined (merge_result st (name, Some root, None))) ''channel'' =
     findall (combined st) ''channel'' @
     map (nth (findall root ''channel''))
       (filter
          (\<lambda>i. channel_id (findall root ''channel'' ! i) \<noteq> [] \<and>
               channel_id (findall root ''channel'' ! i) \<notin> seen_channels st \<and>
               channel_id (findall root ''channel'' ! i) \<notin>
                 set (map channel_id (take i (findall root ''channel''))))
          [0..<length (findall root ''channel'')]) \<and>
   findall (combined (merge_results (initial_state date) rs)) ''channel'' =
     first_unseen channel_id {[]} (concat (map result_channels rs))"
proof -
  have step: "(children (combined (add_channel st c)) = children (combined st) @ [c]
      \<longleftrightarrow> (\<exists>v. map_of (attrib c) ''id'' = Some v \<and> v \<noteq> [] \<and> v \<notin> seen_channels st)) \<and>
   ((\<exists>v. map_of (attrib c) ''id'' = Some v \<and> v \<noteq> [] \<and> v \<notin> seen_channels st)
      \<or> add_channel st c = st)"
    by (auto simp: add_channel_def channel_id_def elem_get_def split: option.splits)
  have never: "\<forall>s \<in> set (merge_points date rs). \<forall>x \<in> set (findall (combined s) ''channel'').
      \<exists>v. map_of (attrib x) ''id'' = Some v \<and> v \<noteq> []"
  proof (intro ballI)
    fix s x
    assume s: "s \<in> set (merge_points date rs)"
      and x: "x \<in> set (findall (combined s) ''channel'')"
    from s have "merge_inv s" by (rule merge_inv_merge_points)
    from this x have "channel_id x \<noteq> []" by (rule merge_inv_channel_id)
    then show "\<exists>v. map_of (attrib x) ''id'' = Some v \<and> v \<noteq> []"
      by (cases "map_of (attrib x) ''id''") (simp_all add: channel_id_def elem_get_def)
  qed
  have id: "channel_id c = (case map_of (attrib c) ''id'' of None \<Rightarrow> [] | Some v \<Rightarrow> v)"
    by (simp add: channel_id_def elem_get_def)
  have seen: "seen_channels (add_channels st (take i (findall root ''channel''))) =
     seen_channels st \<union> (set (map channel_id (take i (findall root ''channel''))) - {[]})"
    using seen_add_channels [of st "take i (findall root ''channel'')"] by (rule conjunct1)
  have "findall (combined (merge_result st (name, Some root, None))) ''channel'' =
     findall (combined st) ''channel'' @
     first_unseen channel_id (insert [] (seen_channels st)) (findall root ''channel'')"
    using channels_merge_result_exact [of st "(name, Some root, None)"]
    by (simp add: truthy_def del: merge_result.simps)
  then have one: "findall (combined (merge_result st (name, Some root, None))) ''channel'' =
     findall (combined st) ''channel'' @
     map (nth (findall root ''channel''))
       (filter
          (\<lambda>i. channel_id (findall root ''channel'' ! i) \<noteq> [] \<and>
               channel_id (findall root ''channel'' ! i) \<notin> seen_channels st \<and>
               channel_id (findall root ''channel'' ! i) \<notin>
                 set (map channel_id (take i (findall root ''channel''))))
          [0..<length (findall root ''channel'')])"
    by (simp add: first_unseen_def conj_assoc del: merge_result.simps)
  have start: "seen_channels (initial_state date) = {}"
    by (simp add: initial_state_def)
  have run: "findall (combined (merge_results (initial_state date) rs)) ''channel'' =
     first_unseen channel_id {[]} (concat (map result_channels rs))"
    using channels_merge_results_exact [of "initial_state date" rs]
    by (simp add: start)
  show ?thesis
  proof (intro conjI)
    show "children (combined (add_channel st c)) = children (combined st) @ [c]
      \<longleftrightarrow> (\<exists>v. map_of (attrib c) ''id'' = Some v \<and> v \<noteq> [] \<and> v \<notin> seen_channels st)"
      using step by (rule conjunct1)
    show "(\<exists>v. map_of (attrib c) ''id'' = Some v \<and> v \<noteq> [] \<and> v \<notin> seen_channels st)
      \<or> add_channel st c = st"
      using step by (rule conjunct2)
  qed (fact never id seen one run)+
qed

theorem channel_appended_witness:
  "children (combined (add_channel (merge_results (initial_state stamp) [source_a]) (chan ''3'')))
     = children (combined (merge_results (initial_state stamp) [source_a])) @ [chan ''3''] \<and>
   add_channel (merge_results (initial_state stamp) [source_a]) (chan ''2'')
     = merge_results (initial_state stamp) [source_a] \<and>
   add_channel (merge_results (initial_state stamp) [source_a]) (chan [])
     = merge_results (initial_state stamp) [source_a] \<and>
   add_channel (merge_results (initial_state stamp) [source_a]) (Element ''channel'' [] [] [])
     = merge_results (initial_state stamp) [source_a] \<and>
   (\<exists>v. map_of (attrib (chan ''1'')) ''id'' = Some v \<and> v \<noteq> []) \<and>
   first_unseen channel_id {[]}
     (concat (map result_channels
        [source_a, (''c'', Some (tv [chan [], chan ''3'', chan ''1'']), None)])) =
     [chan ''1'', chan ''2'', chan ''3'']"
proof -
  let ?st = "merge_results (initial_state stamp) [source_a]"
  let ?rs = "[source_a, (''c'', Some (tv [chan [], chan ''3'', chan ''1'']), None)]"
  have seen: "seen_channels ?st = {''2'', ''1''}"
    by (simp add: merge_eval)
  have a: "\<exists>v. map_of (attrib (chan ''3'')) ''id'' = Some v \<and> v \<noteq> [] \<and> v \<notin> seen_channels ?st"
    unfolding seen by (simp add: chan_def)
  have b: "\<not> (\<exists>v. map_of (attrib (chan ''2'')) ''id'' = Some v \<and> v \<noteq> [] \<and> v \<notin> seen_channels ?st)"
    unfolding seen by (simp add: chan_def)
  have c: "\<not> (\<exists>v. map_of (attrib (chan [])) ''id'' = Some v \<and> v \<noteq> [] \<and> v \<notin> seen_channels ?st)"
    by (simp add: chan_def)
  have d: "\<not> (\<exists>v. map_of (attrib (Element ''channel'' [] [] [])) ''id'' = Some v \<and> v \<noteq> []
             \<and> v \<notin> seen_channels ?st)"
    by simp
  have mem: "?st \<in> set (merge_points stamp [source_a])"
    by (simp add: merge_eval)
  have x: "chan ''1'' \<in> set (findall (combined ?st) ''channel'')"
    by (simp add: merge_eval)
  have out: "findall (combined (merge_results (initial_state stamp) ?rs)) ''channel'' =
      [chan ''1'', chan ''2'', chan ''3'']"
    by (simp add: merge_eval)
  note t3 = channel_appended_iff [where st = ?st and c = "chan ''3''" and date = stamp
      and rs = "[source_a]"]
  from a t3
  have 1: "children (combined (add_channel ?st (chan ''3''))) = children (combined ?st) @ [chan ''3'']"
    by blast
  from b channel_appended_iff [where st = ?st and c = "chan ''2''"]
  have 2: "add_channel ?st (chan ''2'') = ?st" by blast
  from c channel_appended_iff [where st = ?st and c = "chan []"]
  have 3: "add_channel ?st (chan []) = ?st" by blast
  from d channel_appended_iff [where st = ?st and c = "Element ''channel'' [] [] []"]
  have 4: "add_channel ?st (Element ''channel'' [] [] []) = ?st" by blast
  from mem x t3
  have 5: "\<exists>v. map_of (attrib (chan ''1'')) ''id'' = Some v \<and> v \<noteq> []" by blast
  note run = channel_appended_iff [where date = stamp and rs = ?rs,
      THEN conjunct2, THEN conjunct2, THEN conjunct2, THEN conjunct2, THEN conjunct2,
      THEN conjunct2]
  from out have 6: "first_unseen channel_id {[]} (concat (map result_channels ?rs)) =
      [chan ''1'', chan ''2'', chan ''3'']"
    by (simp only: run)
  from 1 2 3 4 5 6 show ?thesis by (intro conjI)
qed

text \<open>
  C3. In an iteration of the programme loop the programme is appended exactly when its
  key is not in the seen-programme set, and otherwise the state stays as it was. The key
  is the triple of the attributes \<open>channel\<close>, \<open>start\<close> and \<open>stop\<close>, each read as the
  empty string when it is missing. Two programmes that lack all three attributes both
  have the key of three empty strings, and the second of them is dropped.

  The loop is run on every programme of a successful document, in document order, after
  the channel loop, which leaves the seen-programme set alone. When the programme at
  position \<open>i\<close> is reached the seen-programme set is the one from before the document
  together with the keys of the programmes before position \<open>i\<close>. So merging the
  document appends exactly the programmes whose key is not in the seen-programme set
  from before and is not the key of an earlier programme of the document. Over a whole
  run the programme children of the output are exactly the programmes of the merged
  documents, in the order of processing, whose key no programme before them has: of all
  the programmes with one key, that of three empty strings or any other, the output
  holds the first that was processed and no other.
\<close>

theorem programme_appended_iff:
  "(children (combined (add_programme st p)) = children (combined st) @ [p]
      \<longleftrightarrow> prog_key p \<notin> seen_programmes st) \<and>
   (prog_key p \<notin> seen_programmes st \<or> add_programme st p = st) \<and>
   prog_key p =
     (case map_of (attrib p) ''channel'' of None \<Rightarrow> [] | Some v \<Rightarrow> v,
      case map_of (attrib p) ''start'' of None \<Rightarrow> [] | Some v \<Rightarrow> v,
      case map_of (attrib p) ''stop'' of None \<Rightarrow> [] | Some v \<Rightarrow> v) \<and>
   (map_of (attrib p) ''channel'' = None \<and> map_of (attrib p) ''start'' = None \<and>
    map_of (attrib p) ''stop'' = None \<and>
    map_of (attrib q) ''channel'' = None \<and> map_of (attrib q) ''start'' = None \<and>
    map_of (attrib q) ''stop'' = None \<longrightarrow>
      prog_key p = ([], [], []) \<and> prog_key q = ([], [], []) \<and>
      add_programme (add_programme st p) q = add_programme st p) \<and>
   seen_programmes
       (add_programmes (add_channels st (findall root ''channel''))
          (take i (findall root ''programme''))) =
     seen_programmes st \<union> set (map prog_key (take i (findall root ''programme''))) \<and>
   findall (combined (merge_result st (name, Some root, None))) ''programme'' =
     findall (combined st) ''programme'' @
     map (nth (findall root ''programme''))
       (filter
          (\<lambda>i. prog_key (findall root ''programme'' ! i) \<notin> seen_programmes st \<and>
               prog_key (findall root ''programme'' ! i) \<notin>
                 set (map prog_key (take i (findall root ''programme''))))
          [0..<length (findall root ''programme'')]) \<and>
   findall (combined (merge_results (initial_state date) rs)) ''programme'' =
     first_unseen prog_key {} (concat (map result_programmes rs)) \<and>
   filter (\<lambda>x. prog_key x = k)
       (findall (combined (merge_results (initial_state date) rs)) ''programme'') =
     (case List.find (\<lambda>x. prog_key x = k) (concat (map result_programmes rs)) of
        None \<Rightarrow> [] | Some x \<Rightarrow> [x])"
proof -
  have step: "(children (combined (add_programme st p)) = children (combined st) @ [p]
      \<longleftrightarrow> prog_key p \<notin> seen_programmes st) \<and>
   (prog_key p \<notin> seen_programmes st \<or> add_programme st p = st)"
    by (auto simp: add_programme_def)
  have key: "prog_key p =
     (case map_of (attrib p) ''channel'' of None \<Rightarrow> [] | Some v \<Rightarrow> v,
      case map_of (attrib p) ''start'' of None \<Rightarrow> [] | Some v \<Rightarrow> v,
      case map_of (attrib p) ''stop'' of None \<Rightarrow> [] | Some v \<Rightarrow> v)"
    by (simp add: prog_key_def elem_get_def)
  have seen: "prog_key p \<in> seen_programmes (add_programme st p)"
    by (simp add: add_programme_def)
  have collide: "prog_key p = ([], [], []) \<and> prog_key q = ([], [], []) \<and>
      add_programme (add_programme st p) q = add_programme st p"
    if "map_of (attrib p) ''channel'' = None \<and> map_of (attrib p) ''start'' = None \<and>
        map_of (attrib p) ''stop'' = None \<and>
        map_of (attrib q) ''channel'' = None \<and> map_of (attrib q) ''start'' = None \<and>
        map_of (attrib q) ''stop'' = None"
  proof -
    from that have p: "prog_key p = ([], [], [])" and q: "prog_key q = ([], [], [])"
      by (simp_all add: prog_key_def elem_get_def)
    with seen have "prog_key q \<in> seen_programmes (add_programme st p)" by simp
    then have "add_programme (add_programme st p) q = add_programme st p"
      by (simp add: add_programme_def [of "add_programme st p" q])
    with p q show ?thesis by simp
  qed
  from step key collide have first: "(children (combined (add_programme st p)) = children (combined st) @ [p]
      \<longleftrightarrow> prog_key p \<notin> seen_programmes st) \<and>
   (prog_key p \<notin> seen_programmes st \<or> add_programme st p = st) \<and>
   prog_key p =
     (case map_of (attrib p) ''channel'' of None \<Rightarrow> [] | Some v \<Rightarrow> v,
      case map_of (attrib p) ''start'' of None \<Rightarrow> [] | Some v \<Rightarrow> v,
      case map_of (attrib p) ''stop'' of None \<Rightarrow> [] | Some v \<Rightarrow> v) \<and>
   (map_of (attrib p) ''channel'' = None \<and> map_of (attrib p) ''start'' = None \<and>
    map_of (attrib p) ''stop'' = None \<and>
    map_of (attrib q) ''channel'' = None \<and> map_of (attrib q) ''start'' = None \<and>
    map_of (attrib q) ''stop'' = None \<longrightarrow>
      prog_key p = ([], [], []) \<and> prog_key q = ([], [], []) \<and>
      add_programme (add_programme st p) q = add_programme st p)"
    by blast
  have reached: "seen_programmes
       (add_programmes (add_channels st (findall root ''channel''))
          (take i (findall root ''programme''))) =
     seen_programmes st \<union> set (map prog_key (take i (findall root ''programme'')))"
    using seen_add_programmes [of "add_channels st (findall root ''channel'')"
        "take i (findall root ''programme'')"]
      seen_add_channels [of st "findall root ''channel''"]
    by simp
  have "findall (combined (merge_result st (name, Some root, None))) ''programme'' =
     findall (combined st) ''programme'' @
     first_unseen prog_key (seen_programmes st) (findall root ''programme'')"
    using programmes_merge_result_exact [of st "(name, Some root, None)"]
    by (simp add: truthy_def del: merge_result.simps)
  then have one: "findall (combined (merge_result st (name, Some root, None))) ''programme'' =
     findall (combined st) ''programme'' @
     map (nth (findall root ''programme''))
       (filter
          (\<lambda>i. prog_key (findall root ''programme'' ! i) \<notin> seen_programmes st \<and>
               prog_key (findall root ''programme'' ! i) \<notin>
                 set (map prog_key (take i (findall root ''programme''))))
          [0..<length (findall root ''programme'')])"
    by (simp add: first_unseen_def del: merge_result.simps)
  have start: "seen_programmes (initial_state date) = {}"
    by (simp add: initial_state_def)
  have run: "findall (combined (merge_results (initial_state date) rs)) ''programme'' =
     first_unseen prog_key {} (concat (map result_programmes rs))"
    using programmes_merge_results_exact [of "initial_state date" rs]
    by (simp add: start)
  have only: "filter (\<lambda>x. prog_key x = k)
       (findall (combined (merge_results (initial_state date) rs)) ''programme'') =
     (case List.find (\<lambda>x. prog_key x = k) (concat (map result_programmes rs)) of
        None \<Rightarrow> [] | Some x \<Rightarrow> [x])"
    unfolding run by (rule filter_key_first_unseen)
  note f1 = first [THEN conjunct1]
    and f2 = first [THEN conjunct2, THEN conjunct1]
    and f3 = first [THEN conjunct2, THEN conjunct2, THEN conjunct1]
    and f4 = first [THEN conjunct2, THEN conjunct2, THEN conjunct2]
  show ?thesis
    by (intro conjI) (fact f1 f2 f3 f4 reached one run only)+
qed

theorem programme_appended_witness:
  "children (combined
     (add_programme (add_programme (initial_state stamp) (Element ''programme'' [] [] []))
        (Element ''programme'' [(''title'', ''News'')] [] [])))
     = [Element ''programme'' [] [] []] \<and>
   prog_key (Element ''programme'' [(''title'', ''News'')] [] []) = ([], [], []) \<and>
   add_programme (merge_results (initial_state stamp) [source_a]) (prog ''1'' ''0900'' ''1000'')
     = merge_results (initial_state stamp) [source_a] \<and>
   filter (\<lambda>x. prog_key x = ([], [], []))
     (findall (combined (merge_results (initial_state stamp)
        [(''a'', Some (tv [Element ''programme'' [] [] [], prog ''1'' ''0900'' ''1000'']), None),
         (''b'', Some (tv [Element ''programme'' [(''title'', ''News'')] [] []]), None)]))
        ''programme'') =
     [Element ''programme'' [] [] []]"
proof -
  let ?rs = "[(''a'', Some (tv [Element ''programme'' [] [] [], prog ''1'' ''0900'' ''1000'']), None),
       (''b'', Some (tv [Element ''programme'' [(''title'', ''News'')] [] []]), None)]
       :: fetch_result list"
  let ?p = "Element ''programme'' [] [] []"
  let ?q = "Element ''programme'' [(''title'', ''News'')] [] []"
  let ?st = "merge_results (initial_state stamp) [source_a]"
  have missing: "map_of (attrib ?p) ''channel'' = None \<and> map_of (attrib ?p) ''start'' = None \<and>
    map_of (attrib ?p) ''stop'' = None \<and>
    map_of (attrib ?q) ''channel'' = None \<and> map_of (attrib ?q) ''start'' = None \<and>
    map_of (attrib ?q) ''stop'' = None"
    by simp
  with programme_appended_iff [of "initial_state stamp" ?p ?q]
  have drop: "add_programme (add_programme (initial_state stamp) ?p) ?q
      = add_programme (initial_state stamp) ?p"
    and key: "prog_key ?q = ([], [], [])" and keyp: "prog_key ?p = ([], [], [])"
    by blast+
  from keyp have "prog_key ?p \<notin> seen_programmes (initial_state stamp)"
    by (simp add: initial_state_def)
  with programme_appended_iff [of "initial_state stamp" ?p ?q]
  have "children (combined (add_programme (initial_state stamp) ?p))
      = children (combined (initial_state stamp)) @ [?p]"
    by blast
  with drop have 1: "children (combined
     (add_programme (add_programme (initial_state stamp) ?p) ?q)) = [?p]"
    by simp
  have "prog_key (prog ''1'' ''0900'' ''1000'') \<in> seen_programmes ?st"
    by (simp add: merge_eval)
  with programme_appended_iff [of ?st "prog ''1'' ''0900'' ''1000''" ?q]
  have 2: "add_programme ?st (prog ''1'' ''0900'' ''1000'') = ?st"
    by blast
  have first: "List.find (\<lambda>x. prog_key x = ([], [], [])) (concat (map result_programmes ?rs)) =
      Some ?p"
    by (simp add: truthy_def findall_def tv_def prog_def prog_key_def elem_get_def)
  note only = programme_appended_iff [where date = stamp and rs = ?rs and k = "([], [], [])",
      THEN conjunct2, THEN conjunct2, THEN conjunct2, THEN conjunct2, THEN conjunct2,
      THEN conjunct2, THEN conjunct2]
  have 3: "filter (\<lambda>x. prog_key x = ([], [], []))
     (findall (combined (merge_results (initial_state stamp) ?rs)) ''programme'') = [?p]"
    unfolding only first by simp
  from 1 key 2 3 show ?thesis by (intro conjI)
qed

text \<open>
  What \<open>fetch_epg\<close> can do: return the document that the body of the \<open>try\<close> gave, with
  no error; return no document and the message of the exception that the body raised; or
  let out the exception that the print of a handler raised.
\<close>

theorem fetch_epg_outcomes:
  "(\<exists>root. fetch_body lib name url = Inr root \<and>
      fetch_epg lib name url = Inr (name, Some root, None)) \<or>
   (\<exists>e. fetch_body lib name url = Inl e \<and>
      fetch_epg lib name url = Inr (name, None, Some (str e))) \<or>
   (\<exists>e e' label. fetch_body lib name url = Inl e \<and>
      lib_print lib (label @ '' ('' @ str e @ '')\<newline>'') = Some e' \<and>
      fetch_epg lib name url = Inl e')"
proof (cases "fetch_body lib name url")
  case (Inr root)
  then show ?thesis by (simp add: fetch_epg_def)
next
  case (Inl e)
  obtain label where h: "fetch_epg lib name url = handler lib label name e"
    using Inl by (cases e) (simp_all add: fetch_epg_def)
  show ?thesis
  proof (cases "lib_print lib (label @ '' ('' @ str e @ '')\<newline>'')")
    case None
    with h Inl show ?thesis by (simp add: handler_def)
  next
    case (Some e')
    with h have "fetch_epg lib name url = Inl e'" by (simp add: handler_def)
    with Inl Some show ?thesis by blast
  qed
qed

text \<open>
  C7. The claim is that \<open>fetch_epg\<close> never lets an exception out. The code catches
  whatever the body of the \<open>try\<close> raises, its two prints included, but the print of each
  handler is not guarded. On a standard output that takes ASCII only, a source whose
  request fails with a message that holds another character (here the letter e with an
  acute accent, code 233) makes the handler's print raise, \<open>fetch_epg\<close> lets that
  exception out, and \<open>combine_epg_files\<close> ends with it instead of a document.
\<close>

theorem fetch_epg_propagates:
  "fetch_epg
     ((failing_library (URLError (''<urlopen error Connexion refus'' @ [CHR 0xE9] @ ''e>'')))
        \<lparr>lib_print := ascii_stdout\<rparr>)
     ''usa1'' ''https://example.org/epg.xml'' =
     Inl (OtherException ''ordinal not in range(128)'') \<and>
   combine_epg_files
     ((failing_library (URLError (''<urlopen error Connexion refus'' @ [CHR 0xE9] @ ''e>'')))
        \<lparr>lib_print := ascii_stdout\<rparr>)
     stamp [(''usa1'', ''https://example.org/epg.xml'')] =
     Inl (OtherException ''ordinal not in range(128)'') \<and>
   fetch_epg (failing_library (URLError ''<urlopen error timed out>''))
     ''usa1'' ''https://example.org/epg.xml'' =
     Inr (''usa1'', None, Some ''<urlopen error timed out>'')"
proof -
  let ?lib = "(failing_library (URLError (''<urlopen error Connexion refus'' @ [CHR 0xE9] @ ''e>'')))
        \<lparr>lib_print := ascii_stdout\<rparr>"
  have body: "fetch_body ?lib ''usa1'' ''https://example.org/epg.xml'' =
      Inl (URLError (''<urlopen error Connexion refus'' @ [CHR 0xE9] @ ''e>''))"
    by (simp add: fetch_body_def failing_library_def ascii_stdout_def)
  have out: "fetch_epg ?lib ''usa1'' ''https://example.org/epg.xml'' =
      Inl (OtherException ''ordinal not in range(128)'')"
    unfolding fetch_epg_def body
    by (simp add: handler_def failing_library_def ascii_stdout_def)
  have first: "lib_print ?lib (''\<newline>Fetching '' @ decimal (length [(''usa1'', ''https://example.org/epg.xml'')]) @
      '' EPG sources...\<newline>'') = None"
    by (simp add: failing_library_def ascii_stdout_def decimal.simps decimal_digit_def)
  have run: "combine_epg_files ?lib stamp [(''usa1'', ''https://example.org/epg.xml'')] =
      Inl (OtherException ''ordinal not in range(128)'')"
    by (simp only: combine_epg_files_def first option.case fetch_all_def list.map prod.case
        out merge_completed.simps sum.case)
  have ok: "fetch_epg (failing_library (URLError ''<urlopen error timed out>''))
     ''usa1'' ''https://example.org/epg.xml'' =
     Inr (''usa1'', None, Some ''<urlopen error timed out>'')"
    by (simp add: fetch_epg_def fetch_body_def handler_def failing_library_def)
  from out run ok show ?thesis by (intro conjI)
qed

text \<open>
  C8. When the output path can be opened, \<open>write_xml\<close> leaves at that path a file whose
  content is the XML declaration line, then the DOCTYPE line naming \<open>xmltv.dtd\<close>, then
  the serialisation of the tree, and nothing else; the other files are untouched.
\<close>

theorem write_xml_content:
  \<open>can_open output_path \<Longrightarrow>
   write_xml tostring can_open fs root output_path =
     Inr (fs(output_path \<mapsto>
       ''<?xml version="1.0" encoding="UTF-8"?>\<newline>'' @
       ''<!DOCTYPE tv SYSTEM "xmltv.dtd">\<newline>'' @
       tostring root))\<close>
  by (simp add: write_xml_def file_write_def xml_declaration_def doctype_line_def)

theorem write_xml_content_witness:
  \<open>write_xml tag (\<lambda>path. True) Map.empty (tv []) ''epg.xml'' =
     Inr [''epg.xml'' \<mapsto>
       ''<?xml version="1.0" encoding="UTF-8"?>\<newline><!DOCTYPE tv SYSTEM "xmltv.dtd">\<newline>tv'']\<close>
  using write_xml_content [of "\<lambda>path. True" "''epg.xml''" tag Map.empty "tv []"]
  by (simp add: tv_def)

text \<open>
  C9. At every point of the merge \<open>total_channels\<close> is the number of channel children of
  the combined element and the size of the seen-channel set, and \<open>total_programmes\<close> is
  the number of programme children and the size of the seen-programme set. A point is
  the start, the end of an iteration of one of the two inner loops, or the end of the
  handling of a result that is not merged.
\<close>

theorem counters_agree:
  "\<forall>st \<in> set (merge_points date rs).
     total_channels st = length (findall (combined st) ''channel'') \<and>
     total_channels st = card (seen_channels st) \<and>
     total_programmes st = length (findall (combined st) ''programme'') \<and>
     total_programmes st = card (seen_programmes st)"
proof
  fix st
  assume "st \<in> set (merge_points date rs)"
  then have inv: "merge_inv st" by (rule merge_inv_merge_points)
  from inv have c: "total_channels st = length (findall (combined st) ''channel'')"
    and p: "total_programmes st = length (findall (combined st) ''programme'')"
    by (simp_all add: merge_inv_def)
  from inv have "card (seen_channels st) =
      card (set (map channel_id (findall (combined st) ''channel'')))"
    by (simp add: merge_inv_def)
  also from inv have "\<dots> = length (map channel_id (findall (combined st) ''channel''))"
    unfolding merge_inv_def by (intro distinct_card) blast
  finally have cc: "card (seen_channels st) = length (findall (combined st) ''channel'')"
    by simp
  from inv have "card (seen_programmes st) =
      card (set (map prog_key (findall (combined st) ''programme'')))"
    by (simp add: merge_inv_def)
  also from inv have "\<dots> = length (map prog_key (findall (combined st) ''programme''))"
    unfolding merge_inv_def by (intro distinct_card) blast
  finally have pc: "card (seen_programmes st) = length (findall (combined st) ''programme'')"
    by simp
  from c p cc pc show "total_channels st = length (findall (combined st) ''channel'') \<and>
     total_channels st = card (seen_channels st) \<and>
     total_programmes st = length (findall (combined st) ''programme'') \<and>
     total_programmes st = card (seen_programmes st)"
    by simp
qed

theorem counters_agree_witness:
  "merge_results (initial_state stamp) [source_a, source_b]
     \<in> set (merge_points stamp [source_a, source_b]) \<and>
   total_channels (merge_results (initial_state stamp) [source_a, source_b]) = 3 \<and>
   length (findall (combined (merge_results (initial_state stamp) [source_a, source_b]))
     ''channel'') = 3 \<and>
   card (seen_channels (merge_results (initial_state stamp) [source_a, source_b])) = 3 \<and>
   total_programmes (merge_results (initial_state stamp) [source_a, source_b]) = 1 \<and>
   length (findall (combined (merge_results (initial_state stamp) [source_a, source_b]))
     ''programme'') = 1 \<and>
   card (seen_programmes (merge_results (initial_state stamp) [source_a, source_b])) = 1"
proof -
  let ?st = "merge_results (initial_state stamp) [source_a, source_b]"
  have mem: "?st \<in> set (merge_points stamp [source_a, source_b])"
    by (simp add: merge_eval)
  have c: "total_channels ?st = 3" and p: "total_programmes ?st = 1"
    by (simp_all add: merge_eval)
  from mem counters_agree [of stamp "[source_a, source_b]"]
  have "total_channels ?st = length (findall (combined ?st) ''channel'') \<and>
     total_channels ?st = card (seen_channels ?st) \<and>
     total_programmes ?st = length (findall (combined ?st) ''programme'') \<and>
     total_programmes ?st = card (seen_programmes ?st)"
    by blast
  with mem c p show ?thesis by simp
qed

text \<open>
  C5. Merging a document that was merged before changes nothing: neither when the second
  pass follows the first at once, nor when other results were merged in between. The
  whole state is the same after the second pass, so no entity is appended by it.
\<close>

theorem merge_result_idempotent:
  "merge_result (merge_result st (name, Some root, None)) (name, Some root, None) =
     merge_result st (name, Some root, None) \<and>
   merge_result (merge_results (merge_result st (name, Some root, None)) rs)
       (name, Some root, None) =
     merge_results (merge_result st (name, Some root, None)) rs"
proof -
  let ?r = "(name, Some root, None)"
  have later: "merge_result (merge_results (merge_result st ?r) xs) ?r =
      merge_results (merge_result st ?r) xs" for xs
  proof (rule merge_result_all_seen)
    show "result_channel_ids ?r \<subseteq> seen_channels (merge_results (merge_result st ?r) xs)"
      using seen_merge_results [of "merge_result st ?r" xs] seen_merge_result [of st ?r]
      by blast
    show "result_prog_keys ?r \<subseteq> seen_programmes (merge_results (merge_result st ?r) xs)"
      using seen_merge_results [of "merge_result st ?r" xs] seen_merge_result [of st ?r]
      by blast
  qed
  from later [of "[]"] later [of rs] show ?thesis by simp
qed

theorem merge_result_idempotent_witness:
  "children (combined (merge_results (initial_state stamp) [source_a, source_a])) =
     [chan ''1'', chan ''2'', prog ''1'' ''0900'' ''1000''] \<and>
   children (combined (merge_results (initial_state stamp) [source_a, source_b, source_a])) =
     [chan ''1'', chan ''2'', prog ''1'' ''0900'' ''1000'', chan ''3'']"
proof -
  let ?d = "tv [chan ''1'', chan ''2'', prog ''1'' ''0900'' ''1000'']"
  have one: "children (combined (merge_results (initial_state stamp) [source_a])) =
     [chan ''1'', chan ''2'', prog ''1'' ''0900'' ''1000'']"
    by (simp add: merge_eval)
  have two: "children (combined (merge_results (initial_state stamp) [source_a, source_b])) =
     [chan ''1'', chan ''2'', prog ''1'' ''0900'' ''1000'', chan ''3'']"
    by (simp add: merge_eval)
  from merge_result_idempotent [of "initial_state stamp" "''a''" ?d "[source_b]"]
  have "merge_results (initial_state stamp) [source_a, source_a] =
      merge_results (initial_state stamp) [source_a]"
    and "merge_results (initial_state stamp) [source_a, source_b, source_a] =
      merge_results (initial_state stamp) [source_a, source_b]"
    by (simp_all add: source_a_def)
  with one two show ?thesis by simp
qed

text \<open>
  C4. Two runs that merge the same results in different orders end with the same set of
  seen channel ids and the same set of seen programme keys, and these are the sets of
  ids and keys of the channel and programme children of the two outputs. For two
  successful sources whose channel ids are 1, 2 and 2, 3, the accepted ids are 1, 2
  and 3, three channels, in either order.
\<close>

theorem accepted_keys_order_independent:
  "(mset rs = mset rs' \<longrightarrow>
      seen_channels (merge_results (initial_state date) rs) =
        seen_channels (merge_results (initial_state date) rs') \<and>
      seen_programmes (merge_results (initial_state date) rs) =
        seen_programmes (merge_results (initial_state date) rs') \<and>
      set (map channel_id (findall (combined (merge_results (initial_state date) rs)) ''channel'')) =
        set (map channel_id (findall (combined (merge_results (initial_state date) rs')) ''channel'')) \<and>
      set (map prog_key (findall (combined (merge_results (initial_state date) rs)) ''programme'')) =
        set (map prog_key (findall (combined (merge_results (initial_state date) rs')) ''programme''))) \<and>
   (map channel_id (findall ra ''channel'') = [''1'', ''2''] \<and>
    map channel_id (findall rb ''channel'') = [''2'', ''3''] \<longrightarrow>
      set (map channel_id (findall (combined (merge_results (initial_state date)
        [(na, Some ra, None), (nb, Some rb, None)])) ''channel'')) = {''1'', ''2'', ''3''} \<and>
      set (map channel_id (findall (combined (merge_results (initial_state date)
        [(nb, Some rb, None), (na, Some ra, None)])) ''channel'')) = {''1'', ''2'', ''3''} \<and>
      total_channels (merge_results (initial_state date)
        [(na, Some ra, None), (nb, Some rb, None)]) = 3 \<and>
      total_channels (merge_results (initial_state date)
        [(nb, Some rb, None), (na, Some ra, None)]) = 3)"
proof -
  have inv: "merge_inv (merge_results (initial_state date) xs)" for xs
    by (rule merge_inv_merge_results) (rule merge_inv_initial)
  have ids: "set (map channel_id (findall (combined (merge_results (initial_state date) xs))
      ''channel'')) = seen_channels (merge_results (initial_state date) xs)" for xs
    using inv [of xs] by (simp add: merge_inv_def)
  have keys: "set (map prog_key (findall (combined (merge_results (initial_state date) xs))
      ''programme'')) = seen_programmes (merge_results (initial_state date) xs)" for xs
    using inv [of xs] by (simp add: merge_inv_def)
  have count: "total_channels (merge_results (initial_state date) xs) =
      card (seen_channels (merge_results (initial_state date) xs))" for xs
  proof -
    from inv [of xs] have "distinct (map channel_id
        (findall (combined (merge_results (initial_state date) xs)) ''channel''))"
      by (simp add: merge_inv_def)
    then have "card (set (map channel_id
        (findall (combined (merge_results (initial_state date) xs)) ''channel''))) =
      length (map channel_id (findall (combined (merge_results (initial_state date) xs)) ''channel''))"
      by (rule distinct_card)
    with inv [of xs] show ?thesis unfolding ids by (simp add: merge_inv_def)
  qed
  have perm: "seen_channels (merge_results (initial_state date) rs) =
        seen_channels (merge_results (initial_state date) rs') \<and>
      seen_programmes (merge_results (initial_state date) rs) =
        seen_programmes (merge_results (initial_state date) rs')"
    if "mset rs = mset rs'"
  proof -
    from that have "set rs = set rs'" by (rule mset_eq_setD)
    then show ?thesis by (simp only: seen_merge_results)
  qed
  have union: "{a, b} \<union> {b, c} = {a, b, c}" "{b, c} \<union> {a, b} = {a, b, c}"
    for a b c :: string
    by blast+
  have scenario: "seen_channels (merge_results (initial_state date)
        [(na, Some ra, None), (nb, Some rb, None)]) = {''1'', ''2'', ''3''} \<and>
      seen_channels (merge_results (initial_state date)
        [(nb, Some rb, None), (na, Some ra, None)]) = {''1'', ''2'', ''3''}"
    if "map channel_id (findall ra ''channel'') = [''1'', ''2''] \<and>
        map channel_id (findall rb ''channel'') = [''2'', ''3'']"
  proof -
    from that have a: "result_channel_ids (na, Some ra, None) = {''1'', ''2''}"
      and b: "result_channel_ids (nb, Some rb, None) = {''2'', ''3''}"
      by (simp_all add: truthy_def)
    have start: "seen_channels (initial_state date) = {}"
      by (simp add: initial_state_def)
    have "seen_channels (merge_results (initial_state date)
        [(na, Some ra, None), (nb, Some rb, None)]) = {''1'', ''2''} \<union> {''2'', ''3''}"
      using seen_merge_results [of "initial_state date" "[(na, Some ra, None), (nb, Some rb, None)]"]
      by (simp add: start a b del: result_channel_ids.simps merge_results.simps)
    moreover have "seen_channels (merge_results (initial_state date)
        [(nb, Some rb, None), (na, Some ra, None)]) = {''2'', ''3''} \<union> {''1'', ''2''}"
      using seen_merge_results [of "initial_state date" "[(nb, Some rb, None), (na, Some ra, None)]"]
      by (simp add: start a b del: result_channel_ids.simps merge_results.simps)
    ultimately show ?thesis by (simp only: union)
  qed
  have three: "card {''1'', ''2'', ''3''} = 3" by simp
  show ?thesis
  proof (intro conjI impI)
    assume "mset rs = mset rs'"
    then have pq: "seen_channels (merge_results (initial_state date) rs) =
        seen_channels (merge_results (initial_state date) rs') \<and>
      seen_programmes (merge_results (initial_state date) rs) =
        seen_programmes (merge_results (initial_state date) rs')"
      by (rule perm)
    note p = pq [THEN conjunct1] and q = pq [THEN conjunct2]
    from p show "seen_channels (merge_results (initial_state date) rs) =
        seen_channels (merge_results (initial_state date) rs')" .
    from q show "seen_programmes (merge_results (initial_state date) rs) =
        seen_programmes (merge_results (initial_state date) rs')" .
    from p show "set (map channel_id
          (findall (combined (merge_results (initial_state date) rs)) ''channel'')) =
        set (map channel_id
          (findall (combined (merge_results (initial_state date) rs')) ''channel''))"
      by (simp only: ids)
    from q show "set (map prog_key
          (findall (combined (merge_results (initial_state date) rs)) ''programme'')) =
        set (map prog_key
          (findall (combined (merge_results (initial_state date) rs')) ''programme''))"
      by (simp only: keys)
  next
    assume "map channel_id (findall ra ''channel'') = [''1'', ''2''] \<and>
        map channel_id (findall rb ''channel'') = [''2'', ''3'']"
    then have both: "seen_channels (merge_results (initial_state date)
        [(na, Some ra, None), (nb, Some rb, None)]) = {''1'', ''2'', ''3''} \<and>
      seen_channels (merge_results (initial_state date)
        [(nb, Some rb, None), (na, Some ra, None)]) = {''1'', ''2'', ''3''}"
      by (rule scenario)
    note ab = both [THEN conjunct1] and ba = both [THEN conjunct2]
    from ab show "set (map channel_id (findall (combined (merge_results (initial_state date)
        [(na, Some ra, None), (nb, Some rb, None)])) ''channel'')) = {''1'', ''2'', ''3''}"
      by (simp only: ids)
    from ba show "set (map channel_id (findall (combined (merge_results (initial_state date)
        [(nb, Some rb, None), (na, Some ra, None)])) ''channel'')) = {''1'', ''2'', ''3''}"
      by (simp only: ids)
    from ab three show "total_channels (merge_results (initial_state date)
        [(na, Some ra, None), (nb, Some rb, None)]) = 3"
      by (simp only: count)
    from ba three show "total_channels (merge_results (initial_state date)
        [(nb, Some rb, None), (na, Some ra, None)]) = 3"
      by (simp only: count)
  qed
qed

theorem accepted_keys_order_independent_witness:
  "mset [source_a, source_b] = mset [source_b, source_a] \<and>
   seen_channels (merge_results (initial_state stamp) [source_a, source_b]) = {''3'', ''2'', ''1''} \<and>
   seen_channels (merge_results (initial_state stamp) [source_b, source_a]) = {''3'', ''2'', ''1''} \<and>
   seen_programmes (merge_results (initial_state stamp) [source_b, source_a]) =
     {(''1'', ''0900'', ''1000'')} \<and>
   total_channels (merge_results (initial_state stamp) [source_b, source_a]) = 3"
proof -
  let ?da = "tv [chan ''1'', chan ''2'', prog ''1'' ''0900'' ''1000'']"
  let ?db = "tv [chan ''2'', chan ''3'', prog ''1'' ''0900'' ''1000'']"
  have perm: "mset [source_a, source_b] = mset [source_b, source_a]"
    by simp
  have ab: "seen_channels (merge_results (initial_state stamp) [source_a, source_b])
      = {''3'', ''2'', ''1''}"
    and abp: "seen_programmes (merge_results (initial_state stamp) [source_a, source_b])
      = {(''1'', ''0900'', ''1000'')}"
    by (simp_all add: merge_eval)
  have ids: "map channel_id (findall ?da ''channel'') = [''1'', ''2''] \<and>
    map channel_id (findall ?db ''channel'') = [''2'', ''3'']"
    by (simp add: merge_eval)
  note order = accepted_keys_order_independent
    [of "[source_a, source_b]" "[source_b, source_a]" stamp ?da ?db "''a''" "''b''",
     THEN conjunct1, THEN mp, OF perm]
  note scenario = accepted_keys_order_independent
    [of "[source_a, source_b]" "[source_b, source_a]" stamp ?da ?db "''a''" "''b''",
     THEN conjunct2, THEN mp, OF ids]
  from order [THEN conjunct1] ab
  have 1: "seen_channels (merge_results (initial_state stamp) [source_b, source_a])
      = {''3'', ''2'', ''1''}"
    by (simp only:)
  from order [THEN conjunct2, THEN conjunct1] abp
  have 2: "seen_programmes (merge_results (initial_state stamp) [source_b, source_a]) =
     {(''1'', ''0900'', ''1000'')}"
    by (simp only:)
  have 3: "total_channels (merge_results (initial_state stamp) [source_b, source_a]) = 3"
    unfolding source_a_def source_b_def
    by (rule scenario [THEN conjunct2, THEN conjunct2, THEN conjunct2])
  from perm ab 1 2 3 show ?thesis by (intro conjI)
qed

text \<open>
  A result whose error message is not empty is recorded in the failure list as the pair
  of its identifier and the message, and changes nothing else. A result without a
  document leaves the combined element, the seen sets and the counters as they were. So
  when source A fails with a message that is not empty and source B succeeds, in either
  order, the combined element is the one that merging B alone gives and the failure list
  holds exactly A.
\<close>

theorem failed_result_recorded:
  "(m \<noteq> [] \<longrightarrow>
      merge_result st (name, root, Some m) =
        st\<lparr>failed_sources := failed_sources st @ [(name, m)]\<rparr>) \<and>
   combined (merge_result st (name, None, error)) = combined st \<and>
   seen_channels (merge_result st (name, None, error)) = seen_channels st \<and>
   seen_programmes (merge_result st (name, None, error)) = seen_programmes st \<and>
   total_channels (merge_result st (name, None, error)) = total_channels st \<and>
   total_programmes (merge_result st (name, None, error)) = total_programmes st \<and>
   (m \<noteq> [] \<longrightarrow>
      combined (merge_results (initial_state date) [(a, None, Some m), (b, Some rb, None)]) =
        combined (merge_results (initial_state date) [(b, Some rb, None)]) \<and>
      combined (merge_results (initial_state date) [(b, Some rb, None), (a, None, Some m)]) =
        combined (merge_results (initial_state date) [(b, Some rb, None)]) \<and>
      failed_sources (merge_results (initial_state date)
        [(a, None, Some m), (b, Some rb, None)]) = [(a, m)] \<and>
      failed_sources (merge_results (initial_state date)
        [(b, Some rb, None), (a, None, Some m)]) = [(a, m)])"
proof -
  have rec: "merge_result s (n, r, Some m) = s\<lparr>failed_sources := failed_sources s @ [(n, m)]\<rparr>"
    if "m \<noteq> []" for s n r
    using that by (simp add: truthy_def)
  have none: "combined (merge_result st (name, None, error)) = combined st \<and>
   seen_channels (merge_result st (name, None, error)) = seen_channels st \<and>
   seen_programmes (merge_result st (name, None, error)) = seen_programmes st \<and>
   total_channels (merge_result st (name, None, error)) = total_channels st \<and>
   total_programmes (merge_result st (name, None, error)) = total_programmes st"
    by simp
  have ok: "merge_result (s\<lparr>failed_sources := fs\<rparr>) (b, Some rb, None) =
      (merge_result s (b, Some rb, None))\<lparr>failed_sources := fs\<rparr>" for s fs
    by (simp add: truthy_def add_channels_failed add_programmes_failed)
  have keep: "failed_sources (merge_result s (b, Some rb, None)) = failed_sources s" for s
    by (simp add: truthy_def failed_add_channels failed_add_programmes)
  have start: "failed_sources (initial_state date) = []"
    by (simp add: initial_state_def)
  have scenario: "combined (merge_results (initial_state date) [(a, None, Some m), (b, Some rb, None)]) =
        combined (merge_results (initial_state date) [(b, Some rb, None)]) \<and>
      combined (merge_results (initial_state date) [(b, Some rb, None), (a, None, Some m)]) =
        combined (merge_results (initial_state date) [(b, Some rb, None)]) \<and>
      failed_sources (merge_results (initial_state date)
        [(a, None, Some m), (b, Some rb, None)]) = [(a, m)] \<and>
      failed_sources (merge_results (initial_state date)
        [(b, Some rb, None), (a, None, Some m)]) = [(a, m)]"
    if "m \<noteq> []"
  proof -
    let ?i = "initial_state date"
    let ?B = "(b, Some rb, None) :: fetch_result"
    have ab: "merge_results ?i [(a, None, Some m), ?B] =
        (merge_result ?i ?B)\<lparr>failed_sources := [(a, m)]\<rparr>"
      using rec [OF that, where s = ?i and n = a and r = None]
        ok [where s = ?i and fs = "[(a, m)]"]
      by (simp add: start del: merge_result.simps)
    have ba: "merge_results ?i [?B, (a, None, Some m)] =
        (merge_result ?i ?B)\<lparr>failed_sources := [(a, m)]\<rparr>"
      using rec [OF that, where s = "merge_result ?i ?B" and n = a and r = None]
        keep [where s = ?i]
      by (simp add: start del: merge_result.simps)
    have one: "merge_results ?i [?B] = merge_result ?i ?B"
      by (simp del: merge_result.simps)
    show ?thesis unfolding ab ba one by simp
  qed
  from rec [where s = st and n = name and r = root] none scenario show ?thesis
    by (intro conjI impI) simp_all
qed

theorem failed_result_recorded_witness:
  "failed_sources (merge_results (initial_state stamp)
     [(''usa5'', None, Some ''unknown url type''), source_b]) = [(''usa5'', ''unknown url type'')] \<and>
   combined (merge_results (initial_state stamp)
     [(''usa5'', None, Some ''unknown url type''), source_b]) =
     combined (merge_results (initial_state stamp) [source_b]) \<and>
   children (combined (merge_results (initial_state stamp)
     [source_b, (''usa5'', None, Some ''unknown url type'')])) =
     [chan ''2'', chan ''3'', prog ''1'' ''0900'' ''1000'']"
proof -
  let ?db = "tv [chan ''2'', chan ''3'', prog ''1'' ''0900'' ''1000'']"
  have ne: "''unknown url type'' \<noteq> []" by simp
  note sc = failed_result_recorded
    [of "''unknown url type''" "initial_state stamp" "''usa5''" None None stamp "''usa5''"
        "''b''" ?db,
     THEN conjunct2, THEN conjunct2, THEN conjunct2, THEN conjunct2, THEN conjunct2,
     THEN conjunct2, THEN mp, OF ne]
  have b: "children (combined (merge_results (initial_state stamp) [source_b])) =
     [chan ''2'', chan ''3'', prog ''1'' ''0900'' ''1000'']"
    by (simp add: merge_eval)
  have 1: "failed_sources (merge_results (initial_state stamp)
     [(''usa5'', None, Some ''unknown url type''), source_b]) = [(''usa5'', ''unknown url type'')]"
    unfolding source_b_def by (rule sc [THEN conjunct2, THEN conjunct2, THEN conjunct1])
  have 2: "combined (merge_results (initial_state stamp)
     [(''usa5'', None, Some ''unknown url type''), source_b]) =
     combined (merge_results (initial_state stamp) [source_b])"
    unfolding source_b_def by (rule sc [THEN conjunct1])
  have "combined (merge_results (initial_state stamp)
     [source_b, (''usa5'', None, Some ''unknown url type'')]) =
     combined (merge_results (initial_state stamp) [source_b])"
    unfolding source_b_def by (rule sc [THEN conjunct2, THEN conjunct1])
  with b have 3: "children (combined (merge_results (initial_state stamp)
     [source_b, (''usa5'', None, Some ''unknown url type'')])) =
     [chan ''2'', chan ''3'', prog ''1'' ''0900'' ''1000'']"
    by (simp only:)
  from 1 2 3 show ?thesis by (intro conjI)
qed

text \<open>
  C6. The claim is that every fetch result carrying an error is recorded in the failure
  list. The code records a result only when \<open>if error:\<close> holds, which is Python's truth
  test and fails on the empty string. A fetch whose exception has the empty message (as
  that of \<open>MemoryError()\<close>, here raised by the parser) returns no document and the empty
  string as its error; the merger does not record it, the test \<open>if root is None\<close> then
  skips it, and the summary counts the source among those that succeeded. The same
  failure with a message that is not empty is recorded.
\<close>

theorem empty_error_not_recorded:
  "fetch_epg ((serving_library (tv []))\<lparr>lib_fromstring := (\<lambda>d. Inl (OtherException []))\<rparr>)
     ''uk1'' ''https://example.org/epg.xml'' = Inr (''uk1'', None, Some []) \<and>
   merge_result (initial_state stamp) (''uk1'', None, Some []) = initial_state stamp \<and>
   failed_sources (merge_results (initial_state stamp) [(''uk1'', None, Some [])]) = [] \<and>
   sources_succeeded 1 (merge_results (initial_state stamp) [(''uk1'', None, Some [])]) = 1 \<and>
   combine_epg_files
     ((serving_library (tv []))\<lparr>lib_fromstring := (\<lambda>d. Inl (OtherException []))\<rparr>)
     stamp [(''uk1'', ''https://example.org/epg.xml'')] =
     Inr (combined (initial_state stamp)) \<and>
   failed_sources (merge_results (initial_state stamp) [(''uk1'', None, Some ''timed out'')]) =
     [(''uk1'', ''timed out'')]"
proof -
  let ?lib = "(serving_library (tv []))\<lparr>lib_fromstring := (\<lambda>d. Inl (OtherException []))\<rparr>"
  have fetch: "fetch_epg ?lib ''uk1'' ''https://example.org/epg.xml'' =
      Inr (''uk1'', None, Some [])"
    by (simp add: fetch_epg_def fetch_body_def handler_def serving_library_def)
  have skip: "merge_result (initial_state stamp) (''uk1'', None, Some []) = initial_state stamp"
    by (simp add: truthy_def)
  have none: "failed_sources (merge_results (initial_state stamp) [(''uk1'', None, Some [])]) = []"
    by (simp add: truthy_def initial_state_def)
  have count: "sources_succeeded 1 (merge_results (initial_state stamp) [(''uk1'', None, Some [])]) = 1"
    by (simp add: sources_succeeded_def truthy_def initial_state_def)
  have silent: "lib_print ?lib t = None" for t
    by (simp add: serving_library_def)
  have quiet: "print_all ?lib ts = None" for ts
    by (induction ts) (simp_all add: serving_library_def)
  have run: "combine_epg_files ?lib stamp [(''uk1'', ''https://example.org/epg.xml'')] =
     Inr (combined (initial_state stamp))"
    by (simp only: combine_epg_files_def silent option.case fetch_all_def list.map prod.case
        fetch merge_completed.simps skip sum.case quiet)
  have sibling: "failed_sources (merge_results (initial_state stamp)
      [(''uk1'', None, Some ''timed out'')]) = [(''uk1'', ''timed out'')]"
    by (simp add: truthy_def initial_state_def)
  from fetch skip none count run sibling show ?thesis by (intro conjI)
qed

text \<open>
  C10. The combined element has one child sequence for both kinds of entity. Merging a
  successful document extends it by channels of the document, in document order,
  followed by programmes of the document, in document order; both go behind everything
  merged before. After two sources that each bring a new channel and a programme, a
  programme of the first therefore stands before a channel of the second, so the
  channels of the output do not all precede its programmes.
\<close>

theorem shared_child_sequence:
  "(\<exists>cs ps.
      children (combined (merge_result st (name, Some root, None))) =
        children (combined st) @ cs @ ps \<and>
      subseq cs (findall root ''channel'') \<and>
      subseq ps (findall root ''programme'')) \<and>
   map tag (children (combined (merge_results (initial_state date)
     [(''a'', Some (tv [chan ''1'', prog ''1'' ''0900'' ''1000'']), None),
      (''b'', Some (tv [chan ''2'', prog ''2'' ''0900'' ''1000'']), None)]))) =
     [''channel'', ''programme'', ''channel'', ''programme'']"
proof -
  from children_add_channels [of st "findall root ''channel''"] obtain cs where
    cs: "children (combined (add_channels st (findall root ''channel''))) =
         children (combined st) @ cs" and subc: "subseq cs (findall root ''channel'')"
    by blast
  from children_add_programmes
    [of "add_channels st (findall root ''channel'')" "findall root ''programme''"]
  obtain ps where
    ps: "children (combined (add_programmes (add_channels st (findall root ''channel''))
           (findall root ''programme''))) =
         children (combined (add_channels st (findall root ''channel''))) @ ps"
    and subp: "subseq ps (findall root ''programme'')"
    by blast
  from cs ps have "children (combined (merge_result st (name, Some root, None))) =
        children (combined st) @ cs @ ps"
    by (simp add: truthy_def)
  with subc subp have general: "\<exists>cs ps.
      children (combined (merge_result st (name, Some root, None))) =
        children (combined st) @ cs @ ps \<and>
      subseq cs (findall root ''channel'') \<and>
      subseq ps (findall root ''programme'')"
    by blast
  have example: "map tag (children (combined (merge_results (initial_state date)
     [(''a'', Some (tv [chan ''1'', prog ''1'' ''0900'' ''1000'']), None),
      (''b'', Some (tv [chan ''2'', prog ''2'' ''0900'' ''1000'']), None)]))) =
     [''channel'', ''programme'', ''channel'', ''programme'']"
    by (simp add: merge_eval)
  from general example show ?thesis by (rule conjI)
qed

theorem shared_child_sequence_witness:
  "(\<exists>cs ps.
      children (combined (merge_results (initial_state stamp) [source_a, source_b])) =
        [chan ''1'', chan ''2'', prog ''1'' ''0900'' ''1000''] @ cs @ ps \<and>
      subseq cs [chan ''2'', chan ''3''] \<and>
      subseq ps [prog ''1'' ''0900'' ''1000'']) \<and>
   children (combined (merge_results (initial_state stamp) [source_a, source_b])) =
     [chan ''1'', chan ''2'', prog ''1'' ''0900'' ''1000'', chan ''3'']"
proof -
  let ?db = "tv [chan ''2'', chan ''3'', prog ''1'' ''0900'' ''1000'']"
  let ?st = "merge_results (initial_state stamp) [source_a]"
  have before: "children (combined ?st) = [chan ''1'', chan ''2'', prog ''1'' ''0900'' ''1000'']"
    by (simp add: merge_eval)
  have cs: "findall ?db ''channel'' = [chan ''2'', chan ''3'']"
    and ps: "findall ?db ''programme'' = [prog ''1'' ''0900'' ''1000'']"
    by (simp_all add: findall_def tv_def chan_def prog_def)
  have step: "merge_results (initial_state stamp) [source_a, source_b] =
      merge_result ?st (''b'', Some ?db, None)"
    by (simp add: source_b_def del: merge_result.simps)
  have 1: "\<exists>cs ps.
      children (combined (merge_results (initial_state stamp) [source_a, source_b])) =
        [chan ''1'', chan ''2'', prog ''1'' ''0900'' ''1000''] @ cs @ ps \<and>
      subseq cs [chan ''2'', chan ''3''] \<and>
      subseq ps [prog ''1'' ''0900'' ''1000'']"
    using shared_child_sequence [of ?st "''b''" ?db stamp, THEN conjunct1]
    unfolding step before cs ps .
  have 2: "children (combined (merge_results (initial_state stamp) [source_a, source_b])) =
     [chan ''1'', chan ''2'', prog ''1'' ''0900'' ''1000'', chan ''3'']"
    by (simp add: merge_eval)
  from 1 2 show ?thesis by (rule conjI)
qed

end
